theory Spec2Isabelle
  imports Complex_Main "HOL-Library.Word"
begin

section \<open>The world service of mmorp-server\<close>

text \<open>
  A shallow embedding of \<^verbatim>\<open>internal/app/world/service.go\<close> and of the domain
  types it uses (\<^verbatim>\<open>internal/domain/world\<close>, \<^verbatim>\<open>internal/domain/character\<close>).

  Conventions of the embedding:
  \<^item> Go's \<^verbatim>\<open>float64\<close> is idealised as \<open>real\<close>: \<^verbatim>\<open>math.Hypot\<close> is the
    square root of the sum of squares, \<^verbatim>\<open>math.Floor\<close> is \<open>floor\<close>. Rounding is not
    modelled; the properties below are about which branch commits which value.
    Overflow is modelled where it changes a result: \<^verbatim>\<open>Move\<close> divides the vector of
    the command, which can be any pair of finite numbers, by its length, and that length
    is \<^verbatim>\<open>+Inf\<close> when it exceeds \<^verbatim>\<open>math.MaxFloat64\<close> (\<open>math_Hypot\<close>). Everywhere
    else a length is compared with a finite bound, where \<^verbatim>\<open>+Inf\<close> takes the branch of
    the exact value, or it is the distance to a target within aggro range.
  \<^item> Go's \<^verbatim>\<open>int\<close> is \<open>int\<close>; the tick counter (\<^verbatim>\<open>uint64\<close>) is a 64-bit word.
  \<^item> A \<^verbatim>\<open>uuid.UUID\<close> (16 bytes) is a 128-bit word, \<^verbatim>\<open>uuid.Nil\<close> is 0.
  \<^item> A \<^verbatim>\<open>*Client\<close> is an address; the client objects live in a store
    (\<open>heap\<close>), the registered ones are the set \<open>clients\<close>.
  \<^item> A Go map is a partial function. Where the code ranges over a map, the order in
    which the runtime yields the keys is an argument of the model.
  \<^item> A run-time panic (index out of range, send on or close of a closed channel) is the
    result \<open>None\<close>.
  \<^item> The handlers take the world lock for their mutation; the model runs each handler
    as one sequential step.
  \<^item> Fields that no function of the service reads are left out: the dialogue, trade and
    quest fields of \<^verbatim>\<open>NPC\<close>, \<^verbatim>\<open>CreatedAt\<close> of \<^verbatim>\<open>Character\<close>, and the logger,
    publisher, tick rate and start/stop fields of \<^verbatim>\<open>Service\<close>. A \<^verbatim>\<open>playerRuntime\<close>
    holds nothing but its \<^verbatim>\<open>State\<close>, so the player table maps to the state itself. The
    random source is an argument of each tick (\<open>tick_env\<close>), and the position updater is the
    flag \<open>has_updater\<close> with the list \<open>persisted\<close> of the calls made to it.
\<close>

subsection \<open>Domain types\<close>

type_synonym uuid = "128 word"

definition uuid_Nil :: uuid where
  "uuid_Nil = 0"

datatype TileType = TileGrass | TileWater | TileWall | TileForest

record SpawnPoint =
  spX :: real
  spY :: real

record TileMap =
  Width :: int
  Height :: int
  Spawn :: SpawnPoint
  Tiles :: "TileType list list"

record PlayerState =
  pID :: uuid
  pName :: string
  pX :: real
  pY :: real
  pHP :: int
  pMaxHP :: int
  pClass :: string
  pLevel :: int
  pExperience :: int
  pGold :: int
  pZoneID :: string

record NPC =
  npcID :: string
  npcName :: string
  npcRole :: string
  npcX :: real
  npcY :: real
  npcZoneID :: string

record MobState =
  mID :: string
  mName :: string
  mX :: real
  mY :: real
  mHP :: int
  mMaxHP :: int
  mDamage :: int
  mPatrolRadius :: real
  mZoneID :: string
  mAlive :: bool

record Character =
  chID :: uuid
  chUserID :: uuid
  chName :: string
  chClass :: string
  chZoneID :: string
  chPosX :: real
  chPosY :: real

subsection \<open>Run-time types of the service\<close>

record mobRuntime =
  State :: MobState
  SpawnX :: real
  SpawnY :: real
  AttackCooldown :: int
  RespawnCounter :: int
  WanderDX :: real
  WanderDY :: real
  WanderTicksRemain :: int

text \<open>A buffered channel of frames: its buffer and whether it was closed.\<close>

record 'f chan =
  buf :: "'f list"
  closed :: bool

datatype websocket_Conn = WSConn (ws_closed: bool)

type_synonym client_ptr = nat

record 'f Client =
  Conn :: "websocket_Conn option"
  AccountID :: uuid
  CharacterID :: uuid
  Send :: "'f chan"

record WorldSnapshot =
  wsZoneID :: string
  wsMap :: TileMap
  wsPlayers :: "PlayerState list"
  wsMobs :: "MobState list"
  wsNPCs :: "NPC list"

text \<open>
  The string of an attacker or target in a combat frame: a mob id as it is, or the
  canonical string of a character id.
\<close>

datatype ident = UuidString uuid | MobId string

text \<open>The payloads the service marshals (\<^verbatim>\<open>map[string]any\<close> with a \<^verbatim>\<open>type\<close> key).\<close>

datatype payload =
    Welcome uuid PlayerState string WorldSnapshot
  | PlayerJoined PlayerState
  | PlayerLeft uuid
  | PlayerMoved uuid real real
  | MobUpdate "MobState list"
  | Combat ident ident int
  | MobDied string
  | PlayerDied uuid
  | PlayerUpdate PlayerState
  | Broadcast string
  | ErrorFrame string

type_synonym zoneEvent = "string \<times> payload"

text \<open>A call of \<^verbatim>\<open>CharacterPositionUpdater.UpdatePosition\<close>: user, character, x, y, zone.\<close>

type_synonym UpdatePosition_call = "uuid \<times> uuid \<times> real \<times> real \<times> string"

record 'f Service =
  zoneID :: string
  has_updater :: bool
  clients :: "client_ptr set"
  heap :: "client_ptr \<Rightarrow> 'f Client"
  players :: "uuid \<rightharpoonup> PlayerState"
  mobs :: "string \<rightharpoonup> mobRuntime"
  npcs :: "NPC list"
  worldMap :: TileMap
  tick :: "64 word"
  persisted :: "UpdatePosition_call list"

subsection \<open>Constants\<close>

definition playerMoveSpeed :: real where "playerMoveSpeed = 0.35"
definition playerCollisionRadius :: real where "playerCollisionRadius = 0.2"
definition playerAttackRange :: real where "playerAttackRange = 1.3"
definition basePlayerDamage :: int where "basePlayerDamage = 20"
definition mobAggroRange :: real where "mobAggroRange = 6.0"
definition mobAttackRange :: real where "mobAttackRange = 1.1"
definition mobMoveSpeed :: real where "mobMoveSpeed = 0.18"
definition mobAttackCooldownTicks :: int where "mobAttackCooldownTicks = 7"
definition mobRespawnTicks :: int where "mobRespawnTicks = 50"
definition mobWanderMaxTicks :: int where "mobWanderMaxTicks = 20"

text \<open>\<^verbatim>\<open>math.MaxFloat64\<close>.\<close>

definition MaxFloat64 :: real where
  "MaxFloat64 = (2 ^ 53 - 1) * 2 ^ 971"

subsection \<open>Geometry and tiles\<close>

definition Hypot :: "real \<Rightarrow> real \<Rightarrow> real" where
  "Hypot p q = sqrt (p * p + q * q)"

definition distance :: "real \<Rightarrow> real \<Rightarrow> real \<Rightarrow> real \<Rightarrow> real" where
  "distance ax ay bx by = Hypot (ax - bx) (ay - by)"

text \<open>
  \<^verbatim>\<open>tileAt\<close>: a negative coordinate or a cell outside \<open>Width \<times> Height\<close> is a wall.
  The read \<^verbatim>\<open>Tiles[ty][tx]\<close> panics when the grid has fewer rows or a shorter row
  than its declared size.
\<close>

definition tileAt :: "TileMap \<Rightarrow> real \<Rightarrow> real \<Rightarrow> TileType option" where
  "tileAt m x y =
     (if x < 0 \<or> y < 0 then Some TileWall
      else
        let tx = \<lfloor>x\<rfloor>; ty = \<lfloor>y\<rfloor> in
        if tx < 0 \<or> tx \<ge> Width m \<or> ty < 0 \<or> ty \<ge> Height m then Some TileWall
        else if nat ty < length (Tiles m) then
          (if nat tx < length (Tiles m ! nat ty) then Some (Tiles m ! nat ty ! nat tx)
           else None)
        else None)"

text \<open>The loop of \<^verbatim>\<open>isWalkableWithRadius\<close> over its probes, returning at the first
  wall or water tile.\<close>

fun walkable_checks :: "TileMap \<Rightarrow> (real \<times> real) list \<Rightarrow> bool option" where
  "walkable_checks m [] = Some True"
| "walkable_checks m (c # cs) =
     (case tileAt m (fst c) (snd c) of
        None \<Rightarrow> None
      | Some t \<Rightarrow>
          if t = TileWall \<or> t = TileWater then Some False else walkable_checks m cs)"

definition isWalkableWithRadius :: "TileMap \<Rightarrow> real \<Rightarrow> real \<Rightarrow> real \<Rightarrow> bool option" where
  "isWalkableWithRadius m x y radius =
     walkable_checks m
       [(x, y), (x - radius, y), (x + radius, y), (x, y - radius), (x, y + radius)]"

definition isWalkable :: "TileMap \<Rightarrow> real \<Rightarrow> real \<Rightarrow> bool option" where
  "isWalkable m x y = isWalkableWithRadius m x y 0"

definition withinPatrol :: "mobRuntime \<Rightarrow> real \<Rightarrow> real \<Rightarrow> bool" where
  "withinPatrol mob x y \<longleftrightarrow>
     distance (SpawnX mob) (SpawnY mob) x y \<le> mPatrolRadius (State mob)"

subsection \<open>Sending frames\<close>

text \<open>
  \<^verbatim>\<open>select { case ch <- msg: default: }\<close> on a channel of capacity 128: the frame is
  buffered when there is room and dropped otherwise; a send on a closed channel panics.
\<close>

definition nonBlockingSend :: "'f chan \<Rightarrow> 'f \<Rightarrow> 'f chan option" where
  "nonBlockingSend ch msg =
     (if closed ch then None
      else if length (buf ch) < 128 then Some (ch\<lparr>buf := buf ch @ [msg]\<rparr>)
      else Some ch)"

text \<open>\<^verbatim>\<open>nonBlockingSendJSON(c.Send, payload)\<close>, on the client object at address \<open>c\<close>.\<close>

definition nonBlockingSendJSON ::
  "(payload \<Rightarrow> 'f option) \<Rightarrow> 'f Service \<Rightarrow> client_ptr \<Rightarrow> payload \<Rightarrow> 'f Service option" where
  "nonBlockingSendJSON marshal s c p =
     (case marshal p of
        None \<Rightarrow> Some s
      | Some b \<Rightarrow>
          (case nonBlockingSend (Send (heap s c)) b of
             None \<Rightarrow> None
           | Some ch \<Rightarrow> Some (s\<lparr>heap := (heap s)(c := (heap s c)\<lparr>Send := ch\<rparr>)\<rparr>)))"

text \<open>The clients \<^verbatim>\<open>broadcastZone\<close> collects under the read lock.\<close>

definition zoneRecipients :: "'f Service \<Rightarrow> uuid \<Rightarrow> string \<Rightarrow> client_ptr set" where
  "zoneRecipients s skipPlayerID zone =
     {c \<in> clients s.
        CharacterID (heap s c) \<noteq> uuid_Nil \<and>
        \<not> (skipPlayerID \<noteq> uuid_Nil \<and> CharacterID (heap s c) = skipPlayerID) \<and>
        (case players s (CharacterID (heap s c)) of
           None \<Rightarrow> False
         | Some pr \<Rightarrow> pZoneID pr = zone)}"

definition broadcastZone ::
  "(payload \<Rightarrow> 'f option) \<Rightarrow> 'f Service \<Rightarrow> uuid \<Rightarrow> string \<Rightarrow> payload \<Rightarrow> 'f Service option" where
  "broadcastZone marshal s skipPlayerID zone p =
     (case marshal p of
        None \<Rightarrow> Some s
      | Some b \<Rightarrow>
          if \<exists>c \<in> zoneRecipients s skipPlayerID zone. closed (Send (heap s c)) then None
          else
            Some (s\<lparr>heap := (\<lambda>c.
              if c \<in> zoneRecipients s skipPlayerID zone then
                (case nonBlockingSend (Send (heap s c)) b of
                   None \<Rightarrow> heap s c
                 | Some ch \<Rightarrow> (heap s c)\<lparr>Send := ch\<rparr>)
              else heap s c)\<rparr>))"

text \<open>The events of a tick, broadcast one after the other.\<close>

fun broadcastEvents ::
  "(payload \<Rightarrow> 'f option) \<Rightarrow> 'f Service \<Rightarrow> zoneEvent list \<Rightarrow> 'f Service option" where
  "broadcastEvents marshal s [] = Some s"
| "broadcastEvents marshal s (evt # evts) =
     (case broadcastZone marshal s uuid_Nil (fst evt) (snd evt) of
        None \<Rightarrow> None
      | Some s' \<Rightarrow> broadcastEvents marshal s' evts)"

subsection \<open>Snapshots\<close>

text \<open>The loops over \<^verbatim>\<open>s.players\<close> and \<^verbatim>\<open>s.mobs\<close> that collect a zone's states,
  in the order \<open>keys\<close> in which the map yields them.\<close>

definition playersInZoneLocked :: "'f Service \<Rightarrow> uuid list \<Rightarrow> string \<Rightarrow> PlayerState list" where
  "playersInZoneLocked s keys zone =
     List.map_filter
       (\<lambda>k. case players s k of
               None \<Rightarrow> None
             | Some p \<Rightarrow> if pZoneID p = zone then Some p else None) keys"

definition mobStatesLocked :: "'f Service \<Rightarrow> string list \<Rightarrow> string \<Rightarrow> MobState list" where
  "mobStatesLocked s keys zone =
     List.map_filter
       (\<lambda>k. case mobs s k of
               None \<Rightarrow> None
             | Some m \<Rightarrow> if mZoneID (State m) = zone then Some (State m) else None) keys"

subsection \<open>Sessions\<close>

text \<open>\<^verbatim>\<open>RegisterClient\<close>: the new client object is allocated at address \<open>c\<close>.\<close>

definition RegisterClient ::
  "'f Service \<Rightarrow> client_ptr \<Rightarrow> websocket_Conn option \<Rightarrow> uuid \<Rightarrow> 'f Service" where
  "RegisterClient s c conn accountID =
     s\<lparr>heap := (heap s)(c := \<lparr>Conn = conn, AccountID = accountID, CharacterID = uuid_Nil,
                               Send = \<lparr>buf = [], closed = False\<rparr>\<rparr>),
       clients := insert c (clients s)\<rparr>"

definition close_Send :: "'f Service \<Rightarrow> client_ptr \<Rightarrow> 'f Service option" where
  "close_Send s c =
     (if closed (Send (heap s c)) then None
      else Some (s\<lparr>heap := (heap s)(c := (heap s c)\<lparr>Send := (Send (heap s c))\<lparr>closed := True\<rparr>\<rparr>)\<rparr>))"

definition close_Conn :: "'f Service \<Rightarrow> client_ptr \<Rightarrow> 'f Service" where
  "close_Conn s c =
     (case Conn (heap s c) of
        None \<Rightarrow> s
      | Some w \<Rightarrow> s\<lparr>heap := (heap s)(c := (heap s c)\<lparr>Conn := Some (WSConn True)\<rparr>)\<rparr>)"

definition UnregisterClient ::
  "(payload \<Rightarrow> 'f option) \<Rightarrow> 'f Service \<Rightarrow> client_ptr \<Rightarrow> 'f Service option" where
  "UnregisterClient marshal s c =
     (let cid = CharacterID (heap s c);
          s1 = s\<lparr>clients := clients s - {c}\<rparr>
      in case players s1 cid of
           None \<Rightarrow>
             (case close_Send s1 c of
                None \<Rightarrow> None
              | Some s2 \<Rightarrow> Some (close_Conn s2 c))
         | Some pr \<Rightarrow>
             (let s2 = s1\<lparr>players := (players s1)(cid := None)\<rparr> in
              case broadcastZone marshal s2 cid (pZoneID pr) (PlayerLeft cid) of
                None \<Rightarrow> None
              | Some s3 \<Rightarrow>
                  (case broadcastZone marshal s3 uuid_Nil (pZoneID pr)
                          (Broadcast (pName pr @ '' left the world'')) of
                     None \<Rightarrow> None
                   | Some s4 \<Rightarrow>
                       (let s5 = (if has_updater s4
                                  then s4\<lparr>persisted := persisted s4 @
                                         [(AccountID (heap s4 c), cid, pX pr, pY pr, pZoneID pr)]\<rparr>
                                  else s4)
                        in case close_Send s5 c of
                             None \<Rightarrow> None
                           | Some s6 \<Rightarrow> Some (close_Conn s6 c)))))"

subsection \<open>Join\<close>

text \<open>The position \<^verbatim>\<open>Join\<close> gives the new player: the two checks of its first lines.\<close>

definition joinPosition :: "TileMap \<Rightarrow> real \<Rightarrow> real \<Rightarrow> (real \<times> real) option" where
  "joinPosition m posX posY =
     (let (spawnX, spawnY) =
            (if posX \<le> 0 \<and> posY \<le> 0 then (spX (Spawn m), spY (Spawn m)) else (posX, posY))
      in case isWalkable m spawnX spawnY of
           None \<Rightarrow> None
         | Some w \<Rightarrow> if \<not> w then Some (1.5, 1.5) else Some (spawnX, spawnY))"

text \<open>The player state \<^verbatim>\<open>Join\<close> constructs.\<close>

definition newPlayer :: "Character \<Rightarrow> real \<Rightarrow> real \<Rightarrow> string \<Rightarrow> PlayerState" where
  "newPlayer char spawnX spawnY zone =
     \<lparr>pID = chID char, pName = chName char, pX = spawnX, pY = spawnY, pHP = 100,
      pMaxHP = 100, pClass = chClass char, pLevel = 1, pExperience = 0, pGold = 0,
      pZoneID = zone\<rparr>"

definition Join ::
  "(payload \<Rightarrow> 'f option) \<Rightarrow> uuid list \<Rightarrow> string list \<Rightarrow> 'f Service \<Rightarrow> client_ptr \<Rightarrow> Character
     \<Rightarrow> 'f Service option" where
  "Join marshal playerKeys mobKeys s c char =
     (case joinPosition (worldMap s) (chPosX char) (chPosY char) of
        None \<Rightarrow> None
      | Some (spawnX, spawnY) \<Rightarrow>
          (let s1 = s\<lparr>heap := (heap s)(c := (heap s c)\<lparr>CharacterID := chID char\<rparr>)\<rparr>;
               player = newPlayer char spawnX spawnY (zoneID s);
               s2 = s1\<lparr>players := (players s1)(chID char \<mapsto> player)\<rparr>;
               snapshot = \<lparr>wsZoneID = zoneID s2, wsMap = worldMap s2,
                           wsPlayers = playersInZoneLocked s2 playerKeys (zoneID s2),
                           wsMobs = mobStatesLocked s2 mobKeys (zoneID s2),
                           wsNPCs = npcs s2\<rparr>
           in case nonBlockingSendJSON marshal s2 c
                     (Welcome (pID player) player (zoneID s2) snapshot) of
                None \<Rightarrow> None
              | Some s3 \<Rightarrow>
                  (case broadcastZone marshal s3 (chID char) (zoneID s3) (PlayerJoined player) of
                     None \<Rightarrow> None
                   | Some s4 \<Rightarrow>
                       broadcastZone marshal s4 uuid_Nil (zoneID s4)
                         (Broadcast (pName player @ '' joined the world'')))))"

subsection \<open>Move\<close>

text \<open>
  \<^verbatim>\<open>math.Hypot\<close> as a \<^verbatim>\<open>float64\<close> function: the length when it is at most
  \<^verbatim>\<open>math.MaxFloat64\<close>, and \<^verbatim>\<open>+Inf\<close> when it is larger (the components are finite,
  they come from a decoded JSON number).
\<close>

datatype float_norm = Finite real | PosInf

definition math_Hypot :: "real \<Rightarrow> real \<Rightarrow> float_norm" where
  "math_Hypot p q = (if Hypot p q > MaxFloat64 then PosInf else Finite (Hypot p q))"

text \<open>
  The step vector: normalised when longer than 1, then scaled by the move speed. When
  the norm is \<^verbatim>\<open>+Inf\<close> the test \<^verbatim>\<open>norm > 1\<close> holds and both quotients
  \<^verbatim>\<open>dx / norm\<close>, \<^verbatim>\<open>dy / norm\<close> of a finite number by \<^verbatim>\<open>+Inf\<close> are 0.
\<close>

definition moveStep :: "real \<Rightarrow> real \<Rightarrow> real \<times> real" where
  "moveStep dx dy =
     (let (dx', dy') =
            (case math_Hypot dx dy of
               PosInf \<Rightarrow> (0, 0)
             | Finite n \<Rightarrow> if n > 1 then (dx / n, dy / n) else (dx, dy))
      in (dx' * playerMoveSpeed, dy' * playerMoveSpeed))"

text \<open>The X-then-Y slide of \<^verbatim>\<open>Move\<close> on one player runtime.\<close>

definition slide :: "TileMap \<Rightarrow> PlayerState \<Rightarrow> real \<Rightarrow> real \<Rightarrow> PlayerState option" where
  "slide m pr stepX stepY =
     (case isWalkableWithRadius m (pX pr + stepX) (pY pr) playerCollisionRadius of
        None \<Rightarrow> None
      | Some wx \<Rightarrow>
          (let pr1 = (if wx then pr\<lparr>pX := pX pr + stepX\<rparr> else pr) in
           case isWalkableWithRadius m (pX pr1) (pY pr1 + stepY) playerCollisionRadius of
             None \<Rightarrow> None
           | Some wy \<Rightarrow> Some (if wy then pr1\<lparr>pY := pY pr1 + stepY\<rparr> else pr1)))"

definition Move ::
  "(payload \<Rightarrow> 'f option) \<Rightarrow> 'f Service \<Rightarrow> client_ptr \<Rightarrow> real \<Rightarrow> real \<Rightarrow> 'f Service option" where
  "Move marshal s c dx dy =
     (if \<bar>dx\<bar> < 0.000001 \<and> \<bar>dy\<bar> < 0.000001 then Some s
      else
        let (stepX, stepY) = moveStep dx dy;
            cid = CharacterID (heap s c)
        in case players s cid of
             None \<Rightarrow> Some s
           | Some pr \<Rightarrow>
               (case slide (worldMap s) pr stepX stepY of
                  None \<Rightarrow> None
                | Some pr' \<Rightarrow>
                    (let s1 = s\<lparr>players := (players s)(cid \<mapsto> pr')\<rparr> in
                     case broadcastZone marshal s1 uuid_Nil (pZoneID pr')
                            (PlayerMoved cid (pX pr') (pY pr')) of
                       None \<Rightarrow> None
                     | Some s2 \<Rightarrow>
                         Some (if has_updater s2
                               then s2\<lparr>persisted := persisted s2 @
                                      [(AccountID (heap s2 c), cid, pX pr', pY pr', pZoneID pr')]\<rparr>
                               else s2))))"

subsection \<open>Attack\<close>

text \<open>The level-up loop that follows the experience grant of a kill.\<close>

function levelUp :: "PlayerState \<Rightarrow> PlayerState" where
  "levelUp pr =
     (if pExperience pr \<ge> pLevel pr * 100 then
        levelUp (pr\<lparr>pExperience := pExperience pr - pLevel pr * 100,
                    pLevel := pLevel pr + 1,
                    pMaxHP := pMaxHP pr + 20,
                    pHP := pMaxHP pr + 20\<rparr>)
      else pr)"
  by pat_completeness auto
termination
proof (relation "measures [\<lambda>pr. nat (1 - pLevel pr), \<lambda>pr. nat (pExperience pr)]")
  show "wf (measures [\<lambda>pr. nat (1 - pLevel pr), \<lambda>pr. nat (pExperience pr)])"
    by simp
next
  fix pr :: PlayerState
  assume a: "pLevel pr * 100 \<le> pExperience pr"
  show "(pr\<lparr>pExperience := pExperience pr - pLevel pr * 100, pLevel := pLevel pr + 1,
             pMaxHP := pMaxHP pr + 20, pHP := pMaxHP pr + 20\<rparr>, pr)
          \<in> measures [\<lambda>pr. nat (1 - pLevel pr), \<lambda>pr. nat (pExperience pr)]"
  proof (cases "pLevel pr \<le> 0")
    case True
    then show ?thesis by simp
  next
    case False
    with a show ?thesis by simp
  qed
qed

text \<open>The experience of one kill: \<^verbatim>\<open>Experience += 25\<close>, then the loop.\<close>

definition grantKill :: "PlayerState \<Rightarrow> PlayerState" where
  "grantKill pr = levelUp (pr\<lparr>pExperience := pExperience pr + 25\<rparr>)"

text \<open>
  The second locked section of \<^verbatim>\<open>Attack\<close>: the death of the mob and the reward.
  \<open>cid\<close> is the key of the runtime object \<^verbatim>\<open>pr\<close> points to.
\<close>

definition resolveKill :: "'f Service \<Rightarrow> uuid \<Rightarrow> string \<Rightarrow> 'f Service" where
  "resolveKill s cid targetID =
     (case mobs s targetID of
        None \<Rightarrow> s
      | Some mob \<Rightarrow>
          if mHP (State mob) \<le> 0 \<and> mAlive (State mob) then
            s\<lparr>mobs := (mobs s)(targetID \<mapsto>
                  mob\<lparr>State := (State mob)\<lparr>mAlive := False, mHP := 0\<rparr>,
                      RespawnCounter := mobRespawnTicks\<rparr>),
              players := (case players s cid of
                            None \<Rightarrow> players s
                          | Some pr \<Rightarrow> (players s)(cid \<mapsto> grantKill pr))\<rparr>
          else s)"

definition mobIsDead :: "'f Service \<Rightarrow> string \<Rightarrow> bool" where
  "mobIsDead s targetID =
     (case mobs s targetID of
        None \<Rightarrow> False
      | Some mob \<Rightarrow> \<not> mAlive (State mob) \<and> RespawnCounter mob = mobRespawnTicks)"

definition Attack ::
  "(payload \<Rightarrow> 'f option) \<Rightarrow> 'f Service \<Rightarrow> client_ptr \<Rightarrow> string \<Rightarrow> 'f Service option" where
  "Attack marshal s c targetID =
     (let cid = CharacterID (heap s c) in
      case players s cid of
        None \<Rightarrow> Some s
      | Some pr \<Rightarrow>
          (case mobs s targetID of
             None \<Rightarrow> nonBlockingSendJSON marshal s c (ErrorFrame ''invalid mob target'')
           | Some mob \<Rightarrow>
               if \<not> mAlive (State mob) then
                 nonBlockingSendJSON marshal s c (ErrorFrame ''invalid mob target'')
               else if distance (pX pr) (pY pr) (mX (State mob)) (mY (State mob))
                         > playerAttackRange then
                 nonBlockingSendJSON marshal s c (ErrorFrame ''target out of range'')
               else
                 (let dmg = basePlayerDamage + (pLevel pr - 1) * 3;
                      s1 = s\<lparr>mobs := (mobs s)(targetID \<mapsto>
                                mob\<lparr>State := (State mob)\<lparr>mHP := mHP (State mob) - dmg\<rparr>\<rparr>)\<rparr>;
                      zone = pZoneID pr
                  in case broadcastZone marshal s1 uuid_Nil zone
                            (Combat (UuidString cid) (MobId targetID) dmg) of
                       None \<Rightarrow> None
                     | Some s2 \<Rightarrow>
                         (let s3 = resolveKill s2 cid targetID;
                              playerSnapshot = (case players s3 cid of
                                                  None \<Rightarrow> pr
                                                | Some p \<Rightarrow> p)
                          in if mobIsDead s3 targetID then
                               (case broadcastZone marshal s3 uuid_Nil zone (MobDied targetID) of
                                  None \<Rightarrow> None
                                | Some s4 \<Rightarrow>
                                    (case broadcastZone marshal s4 uuid_Nil zone
                                            (Broadcast (pName playerSnapshot @ '' defeated '' @
                                               targetID)) of
                                       None \<Rightarrow> None
                                     | Some s5 \<Rightarrow>
                                         nonBlockingSendJSON marshal s5 c
                                           (PlayerUpdate playerSnapshot)))
                             else Some s3))))"

subsection \<open>The tick\<close>

text \<open>
  What the runtime decides during one tick: the order in which \<^verbatim>\<open>range s.mobs\<close>
  yields the mobs, for each mob the order in which \<^verbatim>\<open>range s.players\<close> yields the
  players when the mob looks for a target, the numbers \<^verbatim>\<open>s.rand\<close> draws when the mob
  rerolls its wander, and the order of the mobs in the snapshot.
\<close>

record tick_env =
  mob_order :: "string list"
  player_order :: "string \<Rightarrow> uuid list"
  rand_Float64 :: "string \<Rightarrow> real"
  rand_Intn :: "string \<Rightarrow> int"
  snapshot_order :: "string list"

fun closestLoop ::
  "(uuid \<rightharpoonup> PlayerState) \<Rightarrow> string \<Rightarrow> real \<Rightarrow> real \<Rightarrow> real \<Rightarrow> uuid list
     \<Rightarrow> (uuid \<times> PlayerState) option \<Rightarrow> real \<Rightarrow> (uuid \<times> PlayerState) option" where
  "closestLoop ps zone x y rng [] best bestDist = best"
| "closestLoop ps zone x y rng (k # ks) best bestDist =
     (case ps k of
        None \<Rightarrow> closestLoop ps zone x y rng ks best bestDist
      | Some p \<Rightarrow>
          if pZoneID p \<noteq> zone \<or> pHP p \<le> 0 then closestLoop ps zone x y rng ks best bestDist
          else
            let d = distance x y (pX p) (pY p) in
            if d \<le> rng \<and> d < bestDist then closestLoop ps zone x y rng ks (Some (k, p)) d
            else closestLoop ps zone x y rng ks best bestDist)"

definition closestPlayerInRangeLocked ::
  "'f Service \<Rightarrow> uuid list \<Rightarrow> string \<Rightarrow> real \<Rightarrow> real \<Rightarrow> real \<Rightarrow> (uuid \<times> PlayerState) option" where
  "closestPlayerInRangeLocked s keys zone x y rng =
     closestLoop (players s) zone x y rng keys None MaxFloat64"

definition moveMobTowardsLocked :: "TileMap \<Rightarrow> mobRuntime \<Rightarrow> real \<Rightarrow> real \<Rightarrow> mobRuntime option" where
  "moveMobTowardsLocked m mob x y =
     (let dx = x - mX (State mob);
          dy = y - mY (State mob);
          n = Hypot dx dy
      in if n < 0.000001 then Some mob
         else
           let nx = mX (State mob) + dx / n * mobMoveSpeed;
               ny = mY (State mob) + dy / n * mobMoveSpeed
           in if withinPatrol mob nx ny then
                (case isWalkableWithRadius m nx ny 0.2 of
                   None \<Rightarrow> None
                 | Some w \<Rightarrow>
                     Some (if w then mob\<lparr>State := (State mob)\<lparr>mX := nx, mY := ny\<rparr>\<rparr> else mob))
              else Some mob)"

definition wanderMobLocked :: "TileMap \<Rightarrow> real \<Rightarrow> int \<Rightarrow> mobRuntime \<Rightarrow> mobRuntime option" where
  "wanderMobLocked m randFloat randInt mob =
     (let mob1 = (if WanderTicksRemain mob \<le> 0 then
                    let ang = randFloat * 2 * pi in
                    mob\<lparr>WanderDX := cos ang * mobMoveSpeed * 0.7,
                        WanderDY := sin ang * mobMoveSpeed * 0.7,
                        WanderTicksRemain := 5 + randInt\<rparr>
                  else mob);
          mob2 = mob1\<lparr>WanderTicksRemain := WanderTicksRemain mob1 - 1\<rparr>;
          nx = mX (State mob2) + WanderDX mob2;
          ny = mY (State mob2) + WanderDY mob2
      in if \<not> withinPatrol mob2 nx ny then Some (mob2\<lparr>WanderTicksRemain := 0\<rparr>)
         else
           (case isWalkableWithRadius m nx ny 0.2 of
              None \<Rightarrow> None
            | Some w \<Rightarrow>
                if \<not> w then Some (mob2\<lparr>WanderTicksRemain := 0\<rparr>)
                else Some (mob2\<lparr>State := (State mob2)\<lparr>mX := nx, mY := ny\<rparr>\<rparr>)))"

text \<open>\<^verbatim>\<open>applyMobAttackLocked\<close> on the player runtime: the new runtime and the events.\<close>

definition applyMobAttackLocked ::
  "TileMap \<Rightarrow> mobRuntime \<Rightarrow> PlayerState \<Rightarrow> PlayerState \<times> zoneEvent list" where
  "applyMobAttackLocked m mob pr =
     (let events = [(pZoneID pr,
                     Combat (MobId (mID (State mob))) (UuidString (pID pr)) (mDamage (State mob)))];
          pr1 = pr\<lparr>pHP := pHP pr - mDamage (State mob)\<rparr>
      in if pHP pr1 > 0 then (pr1, events)
         else
           let pr2 = pr1\<lparr>pHP := pMaxHP pr1, pX := spX (Spawn m), pY := spY (Spawn m)\<rparr>
           in (pr2, events @ [(pZoneID pr2, PlayerDied (pID pr2)),
                              (pZoneID pr2, PlayerMoved (pID pr2) (pX pr2) (pY pr2))]))"

definition coolDown :: "mobRuntime \<Rightarrow> mobRuntime" where
  "coolDown mob =
     (if AttackCooldown mob > 0 then mob\<lparr>AttackCooldown := AttackCooldown mob - 1\<rparr> else mob)"

text \<open>The body of the loop of \<^verbatim>\<open>stepMobsLocked\<close> for the mob stored under key \<open>k\<close>.\<close>

definition stepMob ::
  "tick_env \<Rightarrow> 'f Service \<Rightarrow> string \<Rightarrow> ('f Service \<times> zoneEvent list) option" where
  "stepMob env s k =
     (case mobs s k of
        None \<Rightarrow> Some (s, [])
      | Some mob \<Rightarrow>
          if \<not> mAlive (State mob) then
            (let mob1 = (if RespawnCounter mob > 0
                         then mob\<lparr>RespawnCounter := RespawnCounter mob - 1\<rparr> else mob)
             in if RespawnCounter mob1 = 0 then
                  Some (s\<lparr>mobs := (mobs s)(k \<mapsto>
                            mob1\<lparr>State := (State mob1)\<lparr>mAlive := True, mHP := mMaxHP (State mob1),
                                                       mX := SpawnX mob1, mY := SpawnY mob1\<rparr>\<rparr>)\<rparr>,
                        [(mZoneID (State mob1),
                          Broadcast (mName (State mob1) @ '' has respawned''))])
                else Some (s\<lparr>mobs := (mobs s)(k \<mapsto> mob1)\<rparr>, []))
          else
            (case closestPlayerInRangeLocked s (player_order env k) (mZoneID (State mob))
                    (mX (State mob)) (mY (State mob)) mobAggroRange of
               Some (t, target) \<Rightarrow>
                 if distance (pX target) (pY target) (mX (State mob)) (mY (State mob))
                      \<le> mobAttackRange then
                   (if AttackCooldown mob > 0 then
                      Some (s\<lparr>mobs := (mobs s)(k \<mapsto>
                                mob\<lparr>AttackCooldown := AttackCooldown mob - 1\<rparr>)\<rparr>, [])
                    else
                      (let (target', events) = applyMobAttackLocked (worldMap s) mob target in
                       Some (s\<lparr>players := (players s)(t \<mapsto> target'),
                               mobs := (mobs s)(k \<mapsto>
                                 mob\<lparr>AttackCooldown := mobAttackCooldownTicks\<rparr>)\<rparr>, events)))
                 else
                   (case moveMobTowardsLocked (worldMap s) mob (pX target) (pY target) of
                      None \<Rightarrow> None
                    | Some mob' \<Rightarrow> Some (s\<lparr>mobs := (mobs s)(k \<mapsto> coolDown mob')\<rparr>, []))
             | None \<Rightarrow>
                 (case wanderMobLocked (worldMap s) (rand_Float64 env k) (rand_Intn env k)
                         (coolDown mob) of
                    None \<Rightarrow> None
                  | Some mob' \<Rightarrow> Some (s\<lparr>mobs := (mobs s)(k \<mapsto> mob')\<rparr>, []))))"

fun stepMobsLoop ::
  "tick_env \<Rightarrow> 'f Service \<Rightarrow> string list \<Rightarrow> zoneEvent list
     \<Rightarrow> ('f Service \<times> zoneEvent list) option" where
  "stepMobsLoop env s [] events = Some (s, events)"
| "stepMobsLoop env s (k # ks) events =
     (case stepMob env s k of
        None \<Rightarrow> None
      | Some (s', evs) \<Rightarrow> stepMobsLoop env s' ks (events @ evs))"

definition stepMobsLocked ::
  "tick_env \<Rightarrow> 'f Service \<Rightarrow> ('f Service \<times> zoneEvent list) option" where
  "stepMobsLocked env s = stepMobsLoop env s (mob_order env) []"

text \<open>The locked part of \<^verbatim>\<open>tickWorld\<close>: the new state, the events and the snapshot.\<close>

definition tickLocked ::
  "tick_env \<Rightarrow> 'f Service \<Rightarrow> ('f Service \<times> zoneEvent list \<times> MobState list) option" where
  "tickLocked env s =
     (case stepMobsLocked env (s\<lparr>tick := tick s + 1\<rparr>) of
        None \<Rightarrow> None
      | Some (s', events) \<Rightarrow>
          Some (s', events, mobStatesLocked s' (snapshot_order env) (zoneID s')))"

definition tickWorld ::
  "(payload \<Rightarrow> 'f option) \<Rightarrow> tick_env \<Rightarrow> 'f Service \<Rightarrow> 'f Service option" where
  "tickWorld marshal env s =
     (case tickLocked env s of
        None \<Rightarrow> None
      | Some (s1, events, snapshot) \<Rightarrow>
          (case broadcastEvents marshal s1 events of
             None \<Rightarrow> None
           | Some s2 \<Rightarrow> broadcastZone marshal s2 uuid_Nil (zoneID s2) (MobUpdate snapshot)))"

text \<open>Ticks in a row, nothing else happening between them.\<close>

fun runTicks ::
  "(payload \<Rightarrow> 'f option) \<Rightarrow> tick_env list \<Rightarrow> 'f Service \<Rightarrow> 'f Service option" where
  "runTicks marshal [] s = Some s"
| "runTicks marshal (env # envs) s =
     (case tickWorld marshal env s of
        None \<Rightarrow> None
      | Some s' \<Rightarrow> runTicks marshal envs s')"

subsection \<open>Loading the map and constructing the service\<close>

record MobJSON =
  mjID :: string
  mjName :: string
  mjX :: real
  mjY :: real
  mjHP :: int
  mjDamage :: int
  mjPatrolRadius :: real

record MapJSON =
  jWidth :: int
  jHeight :: int
  jSpawn :: SpawnPoint
  jRows :: "string list"
  jNPCs :: "NPC list"
  jMobs :: "MobJSON list"

datatype load_error =
  NoMapFile | InvalidDimensions | RowsCountMismatch | RowWidthMismatch | UnknownTileRune

fun tileOfRune :: "char \<Rightarrow> TileType option" where
  "tileOfRune r =
     (if r = CHR ''.'' then Some TileGrass
      else if r = CHR ''~'' then Some TileWater
      else if r = CHR ''#'' then Some TileWall
      else if r = CHR ''^'' then Some TileForest
      else None)"

fun parseRow :: "string \<Rightarrow> TileType list option" where
  "parseRow [] = Some []"
| "parseRow (r # rs) =
     (case tileOfRune r of
        None \<Rightarrow> None
      | Some t \<Rightarrow> (case parseRow rs of None \<Rightarrow> None | Some row \<Rightarrow> Some (t # row)))"

fun parseRows :: "int \<Rightarrow> string list \<Rightarrow> load_error + TileType list list" where
  "parseRows w [] = Inr []"
| "parseRows w (r # rs) =
     (if int (length r) \<noteq> w then Inl RowWidthMismatch
      else
        case parseRow r of
          None \<Rightarrow> Inl UnknownTileRune
        | Some row \<Rightarrow>
            (case parseRows w rs of
               Inl e \<Rightarrow> Inl e
             | Inr rows \<Rightarrow> Inr (row # rows)))"

definition mobOfJSON :: "string \<Rightarrow> MobJSON \<Rightarrow> MobState" where
  "mobOfJSON zone m =
     (let hp = (if mjHP m \<le> 0 then 60 else mjHP m);
          dmg = (if mjDamage m \<le> 0 then 8 else mjDamage m);
          patrol = (if mjPatrolRadius m \<le> 0 then 5 else mjPatrolRadius m)
      in \<lparr>mID = mjID m, mName = mjName m, mX = mjX m, mY = mjY m, mHP = hp, mMaxHP = hp,
           mDamage = dmg, mPatrolRadius = patrol, mZoneID = zone, mAlive = True\<rparr>)"

text \<open>
  \<^verbatim>\<open>loadWorldMap\<close>. Reading and parsing the file is outside the model: \<open>file\<close> is the
  parsed document, or \<open>None\<close> when the path is empty or the file cannot be read or parsed.
\<close>

definition loadWorldMap ::
  "MapJSON option \<Rightarrow> string \<Rightarrow> load_error + (TileMap \<times> NPC list \<times> MobState list)" where
  "loadWorldMap file zone =
     (case file of
        None \<Rightarrow> Inl NoMapFile
      | Some data \<Rightarrow>
          if jWidth data \<le> 0 \<or> jHeight data \<le> 0 then Inl InvalidDimensions
          else if int (length (jRows data)) \<noteq> jHeight data then Inl RowsCountMismatch
          else
            (case parseRows (jWidth data) (jRows data) of
               Inl e \<Rightarrow> Inl e
             | Inr tiles \<Rightarrow>
                 Inr (\<lparr>Width = jWidth data, Height = jHeight data, Spawn = jSpawn data,
                        Tiles = tiles\<rparr>,
                      map (\<lambda>npc. npc\<lparr>npcZoneID := zone\<rparr>) (jNPCs data),
                      map (mobOfJSON zone) (filter (\<lambda>m. mjID m \<noteq> []) (jMobs data)))))"

definition fallbackWorld :: "string \<Rightarrow> TileMap \<times> NPC list \<times> MobState list" where
  "fallbackWorld zone =
     (\<lparr>Width = 50, Height = 50, Spawn = \<lparr>spX = 2.5, spY = 2.5\<rparr>,
       Tiles = map (\<lambda>y. map (\<lambda>x. if x = 0 \<or> y = 0 \<or> x = 50 - 1 \<or> y = 50 - 1
                                    then TileWall else TileGrass) [0..<50]) [0..<50]\<rparr>,
      [\<lparr>npcID = ''npc-merchant-1'', npcName = ''Rurik'', npcRole = ''merchant'',
        npcX = 5, npcY = 5, npcZoneID = zone\<rparr>],
      [\<lparr>mID = ''mob-slime-1'', mName = ''Green Slime'', mX = 14, mY = 12, mHP = 60,
        mMaxHP = 60, mDamage = 8, mPatrolRadius = 6, mZoneID = zone, mAlive = True\<rparr>])"

definition newMobRuntime :: "MobState \<Rightarrow> mobRuntime" where
  "newMobRuntime m =
     \<lparr>State = m, SpawnX = mX m, SpawnY = mY m, AttackCooldown = 0, RespawnCounter = 0,
      WanderDX = 0, WanderDY = 0, WanderTicksRemain = 0\<rparr>"

fun mobTable :: "MobState list \<Rightarrow> (string \<rightharpoonup> mobRuntime) \<Rightarrow> (string \<rightharpoonup> mobRuntime)" where
  "mobTable [] tbl = tbl"
| "mobTable (m # ms) tbl = mobTable ms (tbl(mID m \<mapsto> newMobRuntime m))"

definition NewService :: "bool \<Rightarrow> string \<Rightarrow> MapJSON option \<Rightarrow> 'f Service" where
  "NewService updater zone file =
     (let (wm, ns, ms) = (case loadWorldMap file zone of
                            Inl err \<Rightarrow> fallbackWorld zone
                          | Inr loaded \<Rightarrow> loaded)
      in \<lparr>zoneID = zone, has_updater = updater, clients = {},
          heap = (\<lambda>c. \<lparr>Conn = None, AccountID = 0, CharacterID = uuid_Nil,
                        Send = \<lparr>buf = [], closed = False\<rparr>\<rparr>),
          players = Map.empty, mobs = mobTable ms Map.empty, npcs = ns, worldMap = wm,
          tick = 0, persisted = []\<rparr>)"

subsection \<open>Reachable states\<close>

text \<open>An order in which \<^verbatim>\<open>range\<close> can yield the keys of a map: each key once.\<close>

definition rangeOrder :: "('k \<rightharpoonup> 'v) \<Rightarrow> 'k list \<Rightarrow> bool" where
  "rangeOrder tbl keys \<longleftrightarrow> distinct keys \<and> set keys = dom tbl"

definition tickEnvOk :: "'f Service \<Rightarrow> tick_env \<Rightarrow> bool" where
  "tickEnvOk s env \<longleftrightarrow>
     rangeOrder (mobs s) (mob_order env) \<and>
     rangeOrder (mobs s) (snapshot_order env) \<and>
     (\<forall>k. rangeOrder (players s) (player_order env k)) \<and>
     (\<forall>k. 0 \<le> rand_Float64 env k \<and> rand_Float64 env k < 1) \<and>
     (\<forall>k. 0 \<le> rand_Intn env k \<and> rand_Intn env k < mobWanderMaxTicks)"

text \<open>
  The states of a running service: constructed by \<^verbatim>\<open>NewService\<close>, then changed by
  the handlers of registered sessions and by the tick loop.
\<close>

inductive reachable :: "(payload \<Rightarrow> 'f option) \<Rightarrow> 'f Service \<Rightarrow> bool"
  for marshal :: "payload \<Rightarrow> 'f option" where
  init: "reachable marshal (NewService updater zone file)"
| register: "reachable marshal s \<Longrightarrow> c \<notin> clients s
     \<Longrightarrow> reachable marshal (RegisterClient s c conn accountID)"
| unregister: "reachable marshal s \<Longrightarrow> c \<in> clients s
     \<Longrightarrow> UnregisterClient marshal s c = Some s' \<Longrightarrow> reachable marshal s'"
| join: "reachable marshal s \<Longrightarrow> c \<in> clients s
     \<Longrightarrow> Join marshal playerKeys mobKeys s c char = Some s' \<Longrightarrow> reachable marshal s'"
| move: "reachable marshal s \<Longrightarrow> c \<in> clients s
     \<Longrightarrow> Move marshal s c dx dy = Some s' \<Longrightarrow> reachable marshal s'"
| attack: "reachable marshal s \<Longrightarrow> c \<in> clients s
     \<Longrightarrow> Attack marshal s c targetID = Some s' \<Longrightarrow> reachable marshal s'"
| tick: "reachable marshal s \<Longrightarrow> tickEnvOk s env
     \<Longrightarrow> tickWorld marshal env s = Some s' \<Longrightarrow> reachable marshal s'"

subsection \<open>Notions of the specification\<close>

text \<open>
  Walkability as the specification words it: the tile at \<open>(floor x, floor y)\<close> is grass
  or forest, a probe outside the grid is not walkable, and a point with a radius is
  walkable when its centre and its four probes left, right, up and down are.
\<close>

definition walkable :: "TileMap \<Rightarrow> real \<Rightarrow> real \<Rightarrow> bool" where
  "walkable m x y \<longleftrightarrow>
     0 \<le> \<lfloor>x\<rfloor> \<and> \<lfloor>x\<rfloor> < Width m \<and> 0 \<le> \<lfloor>y\<rfloor> \<and> \<lfloor>y\<rfloor> < Height m \<and>
     (Tiles m ! nat \<lfloor>y\<rfloor> ! nat \<lfloor>x\<rfloor> = TileGrass \<or> Tiles m ! nat \<lfloor>y\<rfloor> ! nat \<lfloor>x\<rfloor> = TileForest)"

definition walkable_radius :: "TileMap \<Rightarrow> real \<Rightarrow> real \<Rightarrow> real \<Rightarrow> bool" where
  "walkable_radius m x y r \<longleftrightarrow>
     walkable m x y \<and> walkable m (x - r) y \<and> walkable m (x + r) y \<and>
     walkable m x (y - r) \<and> walkable m x (y + r)"

text \<open>
  The position of a joining player as the specification words it: the saved position
  when both coordinates are positive and the point is walkable, otherwise the spawn
  point of the map, otherwise \<open>(1.5, 1.5)\<close>.
\<close>

definition claimedJoinPosition :: "TileMap \<Rightarrow> real \<Rightarrow> real \<Rightarrow> real \<times> real" where
  "claimedJoinPosition m posX posY =
     (if posX > 0 \<and> posY > 0 \<and> walkable m posX posY then (posX, posY)
      else if walkable m (spX (Spawn m)) (spY (Spawn m)) then (spX (Spawn m), spY (Spawn m))
      else (1.5, 1.5))"

text \<open>A grid of \<open>Height\<close> rows of \<open>Width\<close> tiles each, as the map loader builds it.\<close>

definition gridOk :: "TileMap \<Rightarrow> bool" where
  "gridOk m \<longleftrightarrow>
     length (Tiles m) = nat (Height m) \<and> list_all (\<lambda>row. length row = nat (Width m)) (Tiles m)"

text \<open>The queue of every registered session is open.\<close>

definition chansOpen :: "'f Service \<Rightarrow> bool" where
  "chansOpen s \<longleftrightarrow> (\<forall>c \<in> clients s. \<not> closed (Send (heap s c)))"

text \<open>
  Offering a frame to a session's outbound queue without blocking: appended when the
  queue holds fewer than 128 frames, dropped otherwise.
\<close>

definition offer :: "'f \<Rightarrow> 'f Client \<Rightarrow> 'f Client" where
  "offer b cl =
     (if length (buf (Send cl)) < 128 then cl\<lparr>Send := (Send cl)\<lparr>buf := buf (Send cl) @ [b]\<rparr>\<rparr>
      else cl)"

text \<open>
  The sessions a broadcast to a zone is for: the character id is set, the player runtime
  exists and is in the zone, and the character is not the skipped one when one is given.
\<close>

definition isRecipient :: "'f Service \<Rightarrow> uuid \<Rightarrow> string \<Rightarrow> client_ptr \<Rightarrow> bool" where
  "isRecipient s skip zone c \<longleftrightarrow>
     c \<in> clients s \<and> CharacterID (heap s c) \<noteq> uuid_Nil \<and>
     (\<exists>pr. players s (CharacterID (heap s c)) = Some pr \<and> pZoneID pr = zone) \<and>
     (skip = uuid_Nil \<or> CharacterID (heap s c) \<noteq> skip)"

text \<open>
  Emitting a payload to a zone: it is serialised once and the frame is offered to every
  recipient; when it cannot be serialised nothing is sent.
\<close>

definition emitted ::
  "(payload \<Rightarrow> 'f option) \<Rightarrow> 'f Service \<Rightarrow> uuid \<Rightarrow> string \<Rightarrow> payload \<Rightarrow> 'f Service" where
  "emitted marshal s skip zone p =
     (case marshal p of
        None \<Rightarrow> s
      | Some b \<Rightarrow>
          s\<lparr>heap := (\<lambda>c. if isRecipient s skip zone c then offer b (heap s c) else heap s c)\<rparr>)"

text \<open>Emitting the events of a tick, one after the other, to their zones.\<close>

definition emittedEvents ::
  "(payload \<Rightarrow> 'f option) \<Rightarrow> 'f Service \<Rightarrow> zoneEvent list \<Rightarrow> 'f Service" where
  "emittedEvents marshal s evs =
     foldl (\<lambda>st evt. emitted marshal st uuid_Nil (fst evt) (snd evt)) s evs"

text \<open>Every player and every mob stands on a point that is walkable with radius 0.2.\<close>

definition walkInv :: "'f Service \<Rightarrow> bool" where
  "walkInv s \<longleftrightarrow>
     (\<forall>k p. players s k = Some p \<longrightarrow> walkable_radius (worldMap s) (pX p) (pY p) 0.2) \<and>
     (\<forall>k mob. mobs s k = Some mob \<longrightarrow>
        walkable_radius (worldMap s) (mX (State mob)) (mY (State mob)) 0.2)"

text \<open>The spawn point of the map and of every mob is walkable with radius 0.2.\<close>

definition spawnsOk :: "'f Service \<Rightarrow> bool" where
  "spawnsOk s \<longleftrightarrow>
     walkable_radius (worldMap s) (spX (Spawn (worldMap s))) (spY (Spawn (worldMap s))) 0.2 \<and>
     (\<forall>k mob. mobs s k = Some mob \<longrightarrow>
        walkable_radius (worldMap s) (SpawnX mob) (SpawnY mob) 0.2)"

text \<open>
  What a tick may do to a mob's place: the spawn point and the patrol radius stay, and
  the position stays, or is reset to the spawn point, or moves to a point that is within
  patrol range and walkable with radius 0.2.
\<close>

definition mobStepOk :: "TileMap \<Rightarrow> mobRuntime \<Rightarrow> mobRuntime \<Rightarrow> bool" where
  "mobStepOk m mob mob' \<longleftrightarrow>
     SpawnX mob' = SpawnX mob \<and> SpawnY mob' = SpawnY mob \<and>
     mPatrolRadius (State mob') = mPatrolRadius (State mob) \<and>
     ((mX (State mob') = mX (State mob) \<and> mY (State mob') = mY (State mob)) \<or>
      (mX (State mob') = SpawnX mob \<and> mY (State mob') = SpawnY mob) \<or>
      (withinPatrol mob (mX (State mob')) (mY (State mob')) \<and>
       isWalkableWithRadius m (mX (State mob')) (mY (State mob')) 0.2 = Some True))"

text \<open>What a tick may do to a player's place: it stays, or the player is moved to the
  spawn point of the map.\<close>

definition playerStepOk :: "TileMap \<Rightarrow> PlayerState \<Rightarrow> PlayerState \<Rightarrow> bool" where
  "playerStepOk m p p' \<longleftrightarrow>
     (pX p' = pX p \<and> pY p' = pY p) \<or> (pX p' = spX (Spawn m) \<and> pY p' = spY (Spawn m))"

text \<open>Two states related by mob steps: only mobs, players and the tick counter differ,
  no mob or player appears or disappears, and every place changes as a tick may.\<close>

definition tickRel :: "'f Service \<Rightarrow> 'f Service \<Rightarrow> bool" where
  "tickRel s s' \<longleftrightarrow>
     s' = s\<lparr>mobs := mobs s', players := players s', tick := tick s'\<rparr> \<and>
     (\<forall>k. rel_option (mobStepOk (worldMap s)) (mobs s k) (mobs s' k)) \<and>
     (\<forall>t. rel_option (playerStepOk (worldMap s)) (players s t) (players s' t))"

text \<open>Two states with the same map whose mobs and players are the same ones, every
  place changed as a tick may change it.\<close>

definition placesOk :: "'f Service \<Rightarrow> 'f Service \<Rightarrow> bool" where
  "placesOk s s' \<longleftrightarrow>
     worldMap s' = worldMap s \<and>
     (\<forall>k. rel_option (mobStepOk (worldMap s)) (mobs s k) (mobs s' k)) \<and>
     (\<forall>t. rel_option (playerStepOk (worldMap s)) (players s t) (players s' t))"

text \<open>Every mob is within its patrol radius of its spawn point.\<close>

definition patrolInv :: "'f Service \<Rightarrow> bool" where
  "patrolInv s \<longleftrightarrow>
     (\<forall>k mob. mobs s k = Some mob \<longrightarrow>
        distance (SpawnX mob) (SpawnY mob) (mX (State mob)) (mY (State mob))
          \<le> mPatrolRadius (State mob))"

text \<open>A batch of \<open>k\<close> kills granted at once: \<open>25 * k\<close> experience, then the loop.\<close>

definition grantBatch :: "nat \<Rightarrow> PlayerState \<Rightarrow> PlayerState" where
  "grantBatch k pr = levelUp (pr\<lparr>pExperience := pExperience pr + 25 * int k\<rparr>)"

text \<open>Two states that differ at most in the frames buffered in the sessions' queues.\<close>

definition onlyFrames :: "'f Service \<Rightarrow> 'f Service \<Rightarrow> bool" where
  "onlyFrames s s' \<longleftrightarrow>
     s' = s\<lparr>heap := heap s'\<rparr> \<and>
     (\<forall>c. heap s' c = (heap s c)\<lparr>Send := (Send (heap s c))\<lparr>buf := buf (Send (heap s' c))\<rparr>\<rparr>)"

text \<open>Frames are only appended to the queues between two states, at most \<open>n\<close> to each
  queue.\<close>

definition framesAdded :: "nat \<Rightarrow> 'f Service \<Rightarrow> 'f Service \<Rightarrow> bool" where
  "framesAdded n s s' \<longleftrightarrow>
     (\<forall>c. \<exists>fs. buf (Send (heap s' c)) = buf (Send (heap s c)) @ fs \<and> length fs \<le> n)"

subsection \<open>Example inputs\<close>

text \<open>
  A map file of 5 by 5 tiles, walled at the border, with one slime; the world the
  service constructs from it; two characters as the character service returns them,
  one with no saved position and one saved next to the slime.
\<close>

definition arenaJSON :: MapJSON where
  "arenaJSON =
     \<lparr>jWidth = 5, jHeight = 5, jSpawn = \<lparr>spX = 2.5, spY = 2.5\<rparr>,
      jRows = [''#####'', ''#...#'', ''#...#'', ''#...#'', ''#####''],
      jNPCs = [],
      jMobs = [\<lparr>mjID = ''mob-slime-1'', mjName = ''Green Slime'', mjX = 3.5, mjY = 3.5,
                mjHP = 20, mjDamage = 8, mjPatrolRadius = 1\<rparr>]\<rparr>"

definition arenaMap :: TileMap where
  "arenaMap =
     \<lparr>Width = 5, Height = 5, Spawn = \<lparr>spX = 2.5, spY = 2.5\<rparr>,
      Tiles = [[TileWall, TileWall, TileWall, TileWall, TileWall],
               [TileWall, TileGrass, TileGrass, TileGrass, TileWall],
               [TileWall, TileGrass, TileGrass, TileGrass, TileWall],
               [TileWall, TileGrass, TileGrass, TileGrass, TileWall],
               [TileWall, TileWall, TileWall, TileWall, TileWall]]\<rparr>"

definition slime :: MobState where
  "slime =
     \<lparr>mID = ''mob-slime-1'', mName = ''Green Slime'', mX = 3.5, mY = 3.5, mHP = 20,
      mMaxHP = 20, mDamage = 8, mPatrolRadius = 1, mZoneID = ''starter-zone'',
      mAlive = True\<rparr>"

definition arena :: "payload Service" where
  "arena = NewService True ''starter-zone'' (Some arenaJSON)"

definition aria :: Character where
  "aria = \<lparr>chID = 7, chUserID = 3, chName = ''Aria'', chClass = ''mage'',
            chZoneID = ''starter-zone'', chPosX = 0, chPosY = 0\<rparr>"

definition bren :: Character where
  "bren = \<lparr>chID = 8, chUserID = 3, chName = ''Bren'', chClass = ''warrior'',
            chZoneID = ''starter-zone'', chPosX = 3.5, chPosY = 2.5\<rparr>"

text \<open>A character saved on the wall tile in the corner of the arena.\<close>

definition cole :: Character where
  "cole = \<lparr>chID = 9, chUserID = 3, chName = ''Cole'', chClass = ''rogue'',
            chZoneID = ''starter-zone'', chPosX = 0.5, chPosY = 0.5\<rparr>"

text \<open>
  The arena with three sessions: session 1 plays Bren, session 2 plays Aria and has 128
  frames waiting in its queue, session 3 has not joined.
\<close>

definition session :: "uuid \<Rightarrow> uuid \<Rightarrow> payload list \<Rightarrow> payload Client" where
  "session account character frames =
     \<lparr>Conn = None, AccountID = account, CharacterID = character,
      Send = \<lparr>buf = frames, closed = False\<rparr>\<rparr>"

definition duel :: "payload Service" where
  "duel =
     \<lparr>zoneID = ''starter-zone'', has_updater = True, clients = {1, 2, 3},
      heap = (\<lambda>c. if c = 1 then session 3 8 []
                   else if c = 2 then session 3 7 (replicate 128 (Broadcast ''hello''))
                   else session 5 uuid_Nil []),
      players = [8 \<mapsto> newPlayer bren 3.5 2.5 ''starter-zone'',
                 7 \<mapsto> newPlayer aria 2.5 2.5 ''starter-zone''],
      mobs = [''mob-slime-1'' \<mapsto> newMobRuntime slime],
      npcs = [], worldMap = arenaMap, tick = 0, persisted = []\<rparr>"

text \<open>A tick in the arena: the slime is the only mob, session order Bren then Aria, the
  random source draws 0 and 3.\<close>

definition calm :: tick_env where
  "calm = \<lparr>mob_order = [''mob-slime-1''], player_order = (\<lambda>k. [8, 7]),
            rand_Float64 = (\<lambda>k. 0), rand_Intn = (\<lambda>k. 3),
            snapshot_order = [''mob-slime-1'']\<rparr>"


text \<open>
  A character saved on the grass tile next to the left wall of the arena, at
  \<open>(1.125, 1.5)\<close>; the arena after a session has registered, after it has joined as
  this character, and after it has then sent one move to the left.
\<close>

definition dana :: Character where
  "dana = \<lparr>chID = 10, chUserID = 3, chName = ''Dana'', chClass = ''mage'',
            chZoneID = ''starter-zone'', chPosX = 1.125, chPosY = 1.5\<rparr>"

definition lobby :: "payload Service" where
  "lobby = RegisterClient arena 1 None 3"

definition cornered :: "payload Service" where
  "cornered = the (Join Some [] [''mob-slime-1''] lobby 1 dana)"

definition pushed :: "payload Service" where
  "pushed = the (Move Some cornered 1 (- 1) 0)"

section \<open>Properties\<close>

subsection \<open>The level-up loop\<close>

declare levelUp.simps [simp del]

lemma levelUp_idle: "pExperience pr < pLevel pr * 100 \<Longrightarrow> levelUp pr = pr"
  by (subst levelUp.simps) simp

text \<open>Experience added after the loop has run levels as experience added before it.\<close>

lemma levelUp_add:
  "0 \<le> j \<Longrightarrow>
   levelUp ((levelUp q)\<lparr>pExperience := pExperience (levelUp q) + j\<rparr>) =
   levelUp (q\<lparr>pExperience := pExperience q + j\<rparr>)"
proof (induction q rule: levelUp.induct)
  case (1 pr)
  show ?case
  proof (cases "pExperience pr \<ge> pLevel pr * 100")
    case True
    let ?q = "pr\<lparr>pExperience := pExperience pr - pLevel pr * 100, pLevel := pLevel pr + 1,
                   pMaxHP := pMaxHP pr + 20, pHP := pMaxHP pr + 20\<rparr>"
    have a: "levelUp pr = levelUp ?q"
      using True by (subst levelUp.simps) simp
    have b: "levelUp (pr\<lparr>pExperience := pExperience pr + j\<rparr>) =
             levelUp (?q\<lparr>pExperience := pExperience ?q + j\<rparr>)"
    proof -
      have c: "pLevel pr * 100 \<le> pExperience pr + j"
        using True "1.prems" by simp
      have d: "pExperience pr + j - pLevel pr * 100 = pExperience pr - pLevel pr * 100 + j"
        by simp
      have e: "(pr\<lparr>pExperience := pExperience pr + j\<rparr>)
                 \<lparr>pExperience := pExperience pr + j - pLevel pr * 100,
                  pLevel := pLevel pr + 1, pMaxHP := pMaxHP pr + 20, pHP := pMaxHP pr + 20\<rparr>
               = ?q\<lparr>pExperience := pExperience ?q + j\<rparr>"
        by (cases pr) (simp add: d)
      have "levelUp (pr\<lparr>pExperience := pExperience pr + j\<rparr>) =
            levelUp ((pr\<lparr>pExperience := pExperience pr + j\<rparr>)
                 \<lparr>pExperience := pExperience pr + j - pLevel pr * 100,
                  pLevel := pLevel pr + 1, pMaxHP := pMaxHP pr + 20, pHP := pMaxHP pr + 20\<rparr>)"
        using c by (subst levelUp.simps) simp
      then show ?thesis by (simp only: e)
    qed
    show ?thesis
      using "1.IH"[OF True "1.prems"] a b by simp
  next
    case False
    then have "levelUp pr = pr" by (simp add: levelUp_idle)
    then show ?thesis by simp
  qed
qed

lemma fold_grantBatch:
  "fold grantBatch bs (levelUp q) =
   levelUp (q\<lparr>pExperience := pExperience q + 25 * int (sum_list bs)\<rparr>)"
proof (induction bs arbitrary: q)
  case Nil
  then show ?case by simp
next
  case (Cons b bs)
  have "grantBatch b (levelUp q) = levelUp (q\<lparr>pExperience := pExperience q + 25 * int b\<rparr>)"
    unfolding grantBatch_def by (rule levelUp_add) simp
  then show ?case
    using Cons.IH[of "q\<lparr>pExperience := pExperience q + 25 * int b\<rparr>"]
    by (simp add: algebra_simps)
qed

lemma grantKill_is_batch: "grantKill = grantBatch 1"
  by (rule ext) (simp add: grantKill_def grantBatch_def)

lemma levelUp_2500:
  "pLevel p = 1 \<Longrightarrow> pExperience p = 0 \<Longrightarrow>
   levelUp (p\<lparr>pExperience := 2500\<rparr>) =
   p\<lparr>pExperience := 400, pLevel := 7, pMaxHP := pMaxHP p + 120, pHP := pMaxHP p + 120\<rparr>"
  apply (subst levelUp.simps, simp)
  apply (subst levelUp.simps, simp)
  apply (subst levelUp.simps, simp)
  apply (subst levelUp.simps, simp)
  apply (subst levelUp.simps, simp)
  apply (subst levelUp.simps, simp)
  apply (subst levelUp.simps, simp)
  done

text \<open>
  C6. The experience of 100 kills, granted to a level-1 player, gives the same level,
  maximal hit points and experience however the 100 grants are split into batches: a
  batch of \<open>k\<close> grants adds \<open>25 * k\<close> experience and runs the level-up loop once, and
  100 single grants are what \<^verbatim>\<open>Attack\<close> does on 100 kills. For a player fresh from
  \<^verbatim>\<open>Join\<close> the result is level 7 with 400 experience and 120 more maximal hit points.
\<close>

theorem levelUp_batches_agree:
  assumes "pLevel p = 1" and "0 \<le> pExperience p" and "pExperience p < 100"
    and "sum_list bs = 100"
  shows "(pLevel (fold grantBatch bs p), pMaxHP (fold grantBatch bs p),
          pExperience (fold grantBatch bs p)) =
         (pLevel ((grantKill ^^ 100) p), pMaxHP ((grantKill ^^ 100) p),
          pExperience ((grantKill ^^ 100) p)) \<and>
         (pExperience p = 0 \<longrightarrow>
            pLevel (fold grantBatch bs p) = 7 \<and>
            pMaxHP (fold grantBatch bs p) = pMaxHP p + 120 \<and>
            pExperience (fold grantBatch bs p) = 400)"
proof -
  have idle: "levelUp p = p"
    using assms by (simp add: levelUp_idle)
  have batches: "fold grantBatch bs p = levelUp (p\<lparr>pExperience := pExperience p + 2500\<rparr>)"
    using fold_grantBatch[of bs p] assms(4) by (simp add: idle)
  have "(grantKill ^^ 100) p = fold grantBatch (replicate 100 1) p"
    by (simp only: grantKill_is_batch fold_replicate)
  also have "\<dots> = levelUp (p\<lparr>pExperience := pExperience p + 2500\<rparr>)"
    using fold_grantBatch[of "replicate 100 1" p] by (simp add: idle sum_list_replicate)
  finally have singles: "(grantKill ^^ 100) p = fold grantBatch bs p"
    using batches by simp
  have fresh: "pExperience p = 0 \<Longrightarrow>
      fold grantBatch bs p =
      p\<lparr>pExperience := 400, pLevel := 7, pMaxHP := pMaxHP p + 120, pHP := pMaxHP p + 120\<rparr>"
    using batches levelUp_2500[of p] assms(1) by simp
  show ?thesis
    using singles fresh by simp
qed

theorem levelUp_batches_agree_witness:
  "pLevel (newPlayer aria 1.5 1.5 ''starter-zone'') = 1 \<and> sum_list [30, 70 :: nat] = 100 \<and>
   pLevel (fold grantBatch [30, 70] (newPlayer aria 1.5 1.5 ''starter-zone'')) = 7 \<and>
   pMaxHP (fold grantBatch [30, 70] (newPlayer aria 1.5 1.5 ''starter-zone'')) = 220 \<and>
   pExperience (fold grantBatch [30, 70] (newPlayer aria 1.5 1.5 ''starter-zone'')) = 400 \<and>
   pLevel ((grantKill ^^ 100) (newPlayer aria 1.5 1.5 ''starter-zone'')) = 7"
  using levelUp_batches_agree[of "newPlayer aria 1.5 1.5 ''starter-zone''" "[30, 70]"]
  by (simp add: newPlayer_def)

subsection \<open>Tiles and frames\<close>

lemma tileAt_gridOk:
  assumes "gridOk m"
  shows "tileAt m x y =
     Some (if 0 \<le> \<lfloor>x\<rfloor> \<and> \<lfloor>x\<rfloor> < Width m \<and> 0 \<le> \<lfloor>y\<rfloor> \<and> \<lfloor>y\<rfloor> < Height m
           then Tiles m ! nat \<lfloor>y\<rfloor> ! nat \<lfloor>x\<rfloor> else TileWall)"
proof (cases "0 \<le> \<lfloor>x\<rfloor> \<and> \<lfloor>x\<rfloor> < Width m \<and> 0 \<le> \<lfloor>y\<rfloor> \<and> \<lfloor>y\<rfloor> < Height m")
  case True
  then have fx: "0 \<le> \<lfloor>x\<rfloor>" "\<lfloor>x\<rfloor> < Width m" and fy: "0 \<le> \<lfloor>y\<rfloor>" "\<lfloor>y\<rfloor> < Height m"
    by blast+
  have pos: "\<not> x < 0" "\<not> y < 0"
    using fx(1) fy(1) by (simp_all add: not_less)
  have "nat \<lfloor>y\<rfloor> < nat (Height m)"
    using fy by linarith
  with assms have row: "nat \<lfloor>y\<rfloor> < length (Tiles m)"
    by (simp only: gridOk_def)
  then have "Tiles m ! nat \<lfloor>y\<rfloor> \<in> set (Tiles m)"
    by simp
  with assms have "length (Tiles m ! nat \<lfloor>y\<rfloor>) = nat (Width m)"
    by (simp add: gridOk_def list_all_iff)
  moreover have "nat \<lfloor>x\<rfloor> < nat (Width m)"
    using fx by linarith
  ultimately have col: "nat \<lfloor>x\<rfloor> < length (Tiles m ! nat \<lfloor>y\<rfloor>)"
    by simp
  have ng: "\<not> (\<lfloor>x\<rfloor> < 0 \<or> Width m \<le> \<lfloor>x\<rfloor> \<or> \<lfloor>y\<rfloor> < 0 \<or> Height m \<le> \<lfloor>y\<rfloor>)"
    using fx fy by linarith
  show ?thesis
    unfolding tileAt_def Let_def
    using pos row col ng True by (simp only: if_False if_True simp_thms)
next
  case False
  then have "x < 0 \<or> y < 0 \<or> (\<lfloor>x\<rfloor> < 0 \<or> Width m \<le> \<lfloor>x\<rfloor> \<or> \<lfloor>y\<rfloor> < 0 \<or> Height m \<le> \<lfloor>y\<rfloor>)"
    by linarith
  then show ?thesis
    unfolding tileAt_def Let_def using False by auto
qed

lemma walkable_step:
  assumes "gridOk m"
  shows "(case tileAt m x y of None \<Rightarrow> None
          | Some t \<Rightarrow> if t = TileWall \<or> t = TileWater then Some False else R) =
         (if walkable m x y then R else Some False)"
proof -
  have tiles: "\<And>t. (t \<noteq> TileWall \<and> t \<noteq> TileWater) = (t = TileGrass \<or> t = TileForest)"
    by (case_tac t) simp_all
  show ?thesis
    using tiles[of "Tiles m ! nat \<lfloor>y\<rfloor> ! nat \<lfloor>x\<rfloor>"]
    by (auto simp add: tileAt_gridOk[OF assms] walkable_def)
qed

lemma isWalkableWithRadius_gridOk:
  "gridOk m \<Longrightarrow> isWalkableWithRadius m x y r = Some (walkable_radius m x y r)"
  by (simp add: isWalkableWithRadius_def walkable_step walkable_radius_def)

lemma isWalkable_gridOk:
  "gridOk m \<Longrightarrow> isWalkable m x y = Some (walkable m x y)"
  by (simp add: isWalkable_def isWalkableWithRadius_gridOk walkable_radius_def)

lemma onlyFrames_refl: "onlyFrames s s"
  by (simp add: onlyFrames_def)

lemma onlyFramesI:
  assumes "\<And>c. \<exists>b. h c = (heap s c)\<lparr>Send := (Send (heap s c))\<lparr>buf := b\<rparr>\<rparr>"
  shows "onlyFrames s (s\<lparr>heap := h\<rparr>)"
proof -
  have "h c = (heap s c)\<lparr>Send := (Send (heap s c))\<lparr>buf := buf (Send (h c))\<rparr>\<rparr>" for c
  proof -
    from assms obtain b where b: "h c = (heap s c)\<lparr>Send := (Send (heap s c))\<lparr>buf := b\<rparr>\<rparr>"
      by blast
    then have "buf (Send (h c)) = b" by simp
    with b show ?thesis by simp
  qed
  then show ?thesis by (simp add: onlyFrames_def)
qed

lemma onlyFramesD:
  assumes "onlyFrames s s'"
  shows "\<exists>h. s' = s\<lparr>heap := h\<rparr> \<and>
           (\<forall>c. h c = (heap s c)\<lparr>Send := (Send (heap s c))\<lparr>buf := buf (Send (h c))\<rparr>\<rparr>)"
  using assms unfolding onlyFrames_def by blast

lemma onlyFrames_fields:
  assumes "onlyFrames s s'"
  shows "players s' = players s" "mobs s' = mobs s" "worldMap s' = worldMap s"
    "clients s' = clients s" "zoneID s' = zoneID s" "has_updater s' = has_updater s"
    "npcs s' = npcs s" "tick s' = tick s" "persisted s' = persisted s"
    "CharacterID (heap s' c) = CharacterID (heap s c)"
    "AccountID (heap s' c) = AccountID (heap s c)"
    "Conn (heap s' c) = Conn (heap s c)"
    "closed (Send (heap s' c)) = closed (Send (heap s c))"
proof -
  from onlyFramesD[OF assms] obtain h where h: "s' = s\<lparr>heap := h\<rparr>"
    and hc: "\<And>c. h c = (heap s c)\<lparr>Send := (Send (heap s c))\<lparr>buf := buf (Send (h c))\<rparr>\<rparr>"
    by blast
  have hh: "heap s' c = h c" using h by simp
  show "players s' = players s" "mobs s' = mobs s" "worldMap s' = worldMap s"
    "clients s' = clients s" "zoneID s' = zoneID s" "has_updater s' = has_updater s"
    "npcs s' = npcs s" "tick s' = tick s" "persisted s' = persisted s"
    using h by simp_all
  show "CharacterID (heap s' c) = CharacterID (heap s c)"
    by (subst hh, subst hc) simp
  show "AccountID (heap s' c) = AccountID (heap s c)"
    by (subst hh, subst hc) simp
  show "Conn (heap s' c) = Conn (heap s c)"
    by (subst hh, subst hc) simp
  show "closed (Send (heap s' c)) = closed (Send (heap s c))"
    by (subst hh, subst hc) simp
qed

lemma onlyFrames_trans:
  assumes "onlyFrames s s'" and "onlyFrames s' s''"
  shows "onlyFrames s s''"
proof -
  from onlyFramesD[OF assms(1)] obtain h where h: "s' = s\<lparr>heap := h\<rparr>"
    and hc: "\<And>c. h c = (heap s c)\<lparr>Send := (Send (heap s c))\<lparr>buf := buf (Send (h c))\<rparr>\<rparr>"
    by blast
  from onlyFramesD[OF assms(2)] obtain h' where h': "s'' = s'\<lparr>heap := h'\<rparr>"
    and hc': "\<And>c. h' c = (heap s' c)\<lparr>Send := (Send (heap s' c))\<lparr>buf := buf (Send (h' c))\<rparr>\<rparr>"
    by blast
  have eq: "s'' = s\<lparr>heap := h'\<rparr>" using h h' by simp
  have "\<exists>b. h' c = (heap s c)\<lparr>Send := (Send (heap s c))\<lparr>buf := b\<rparr>\<rparr>" for c
  proof -
    have "h' c = (h c)\<lparr>Send := (Send (h c))\<lparr>buf := buf (Send (h' c))\<rparr>\<rparr>"
      using hc'[of c] h by simp
    also have "\<dots> = (heap s c)\<lparr>Send := (Send (heap s c))\<lparr>buf := buf (Send (h' c))\<rparr>\<rparr>"
      by (subst hc, subst (2) hc) simp
    finally show ?thesis by blast
  qed
  then show ?thesis unfolding eq by (rule onlyFramesI)
qed

lemma onlyFrames_chansOpen: "onlyFrames s s' \<Longrightarrow> chansOpen s' = chansOpen s"
  by (simp add: chansOpen_def onlyFrames_fields)

lemma nonBlockingSend_open:
  "\<not> closed ch \<Longrightarrow>
   nonBlockingSend ch b = Some (if length (buf ch) < 128 then ch\<lparr>buf := buf ch @ [b]\<rparr> else ch)"
  by (simp add: nonBlockingSend_def)

lemma nonBlockingSend_SomeD:
  "nonBlockingSend ch b = Some ch' \<Longrightarrow> \<exists>bs. ch' = ch\<lparr>buf := bs\<rparr>"
  by (cases "length (buf ch) < 128") (auto simp add: nonBlockingSend_def split: if_splits intro: exI[of _ "buf ch"])

lemma nonBlockingSendJSON_onlyFrames:
  assumes "nonBlockingSendJSON marshal s c p = Some s'"
  shows "onlyFrames s s'"
proof (cases "marshal p")
  case None
  with assms show ?thesis by (simp add: nonBlockingSendJSON_def onlyFrames_refl)
next
  case (Some b)
  with assms obtain ch where ch: "nonBlockingSend (Send (heap s c)) b = Some ch"
    and s': "s' = s\<lparr>heap := (heap s)(c := (heap s c)\<lparr>Send := ch\<rparr>)\<rparr>"
    by (auto simp add: nonBlockingSendJSON_def split: option.splits)
  from nonBlockingSend_SomeD[OF ch] obtain bs where bs: "ch = (Send (heap s c))\<lparr>buf := bs\<rparr>"
    by blast
  show ?thesis unfolding s'
  proof (rule onlyFramesI)
    fix x
    show "\<exists>b. ((heap s)(c := (heap s c)\<lparr>Send := ch\<rparr>)) x = (heap s x)\<lparr>Send := (Send (heap s x))\<lparr>buf := b\<rparr>\<rparr>"
    proof (cases "x = c")
      case True
      then show ?thesis using bs by auto
    next
      case False
      then have "((heap s)(c := (heap s c)\<lparr>Send := ch\<rparr>)) x = (heap s x)\<lparr>Send := (Send (heap s x))\<lparr>buf := buf (Send (heap s x))\<rparr>\<rparr>"
        by simp
      then show ?thesis by blast
    qed
  qed
qed

lemma zoneRecipients_iff:
  "c \<in> zoneRecipients s skip zone \<longleftrightarrow> isRecipient s skip zone c"
  by (auto simp add: zoneRecipients_def isRecipient_def split: option.splits)

lemma broadcastZone_open:
  assumes "chansOpen s"
  shows "broadcastZone marshal s skip zone p =
     Some (case marshal p of
             None \<Rightarrow> s
           | Some b \<Rightarrow> s\<lparr>heap := (\<lambda>c. if isRecipient s skip zone c then offer b (heap s c)
                                        else heap s c)\<rparr>)"
proof (cases "marshal p")
  case None
  then show ?thesis by (simp add: broadcastZone_def)
next
  case (Some b)
  have open_r: "\<not> (\<exists>c \<in> zoneRecipients s skip zone. closed (Send (heap s c)))"
    using assms by (auto simp add: chansOpen_def zoneRecipients_def)
  have "(\<lambda>c. if c \<in> zoneRecipients s skip zone then
                (case nonBlockingSend (Send (heap s c)) b of
                   None \<Rightarrow> heap s c
                 | Some ch \<Rightarrow> (heap s c)\<lparr>Send := ch\<rparr>)
              else heap s c) =
        (\<lambda>c. if isRecipient s skip zone c then offer b (heap s c) else heap s c)"
  proof (rule ext)
    fix c
    show "(if c \<in> zoneRecipients s skip zone then
                (case nonBlockingSend (Send (heap s c)) b of
                   None \<Rightarrow> heap s c
                 | Some ch \<Rightarrow> (heap s c)\<lparr>Send := ch\<rparr>)
              else heap s c) =
          (if isRecipient s skip zone c then offer b (heap s c) else heap s c)"
    proof (cases "c \<in> zoneRecipients s skip zone")
      case True
      then have "\<not> closed (Send (heap s c))" using open_r by blast
      then show ?thesis
        using True by (simp add: zoneRecipients_iff[symmetric] nonBlockingSend_open offer_def)
    next
      case False
      then show ?thesis by (simp add: zoneRecipients_iff[symmetric])
    qed
  qed
  then show ?thesis
    using Some open_r by (simp add: broadcastZone_def)
qed

lemma broadcastZone_onlyFrames:
  assumes "broadcastZone marshal s skip zone p = Some s'"
  shows "onlyFrames s s'"
proof (cases "marshal p")
  case None
  with assms show ?thesis by (simp add: broadcastZone_def onlyFrames_refl)
next
  case (Some b)
  with assms have s': "s' = s\<lparr>heap := (\<lambda>c.
              if c \<in> zoneRecipients s skip zone then
                (case nonBlockingSend (Send (heap s c)) b of
                   None \<Rightarrow> heap s c
                 | Some ch \<Rightarrow> (heap s c)\<lparr>Send := ch\<rparr>)
              else heap s c)\<rparr>"
    by (auto simp add: broadcastZone_def split: if_splits)
  show ?thesis unfolding s'
  proof (rule onlyFramesI)
    fix c
    show "\<exists>ba. (if c \<in> zoneRecipients s skip zone then
                (case nonBlockingSend (Send (heap s c)) b of
                   None \<Rightarrow> heap s c
                 | Some ch \<Rightarrow> (heap s c)\<lparr>Send := ch\<rparr>)
              else heap s c) = (heap s c)\<lparr>Send := (Send (heap s c))\<lparr>buf := ba\<rparr>\<rparr>"
    proof (cases "c \<in> zoneRecipients s skip zone \<and> nonBlockingSend (Send (heap s c)) b \<noteq> None")
      case True
      then obtain ch where ch: "nonBlockingSend (Send (heap s c)) b = Some ch" by blast
      from nonBlockingSend_SomeD[OF ch] obtain bs where "ch = (Send (heap s c))\<lparr>buf := bs\<rparr>"
        by blast
      then show ?thesis using True ch by auto
    next
      case False
      then have "(if c \<in> zoneRecipients s skip zone then
                (case nonBlockingSend (Send (heap s c)) b of
                   None \<Rightarrow> heap s c
                 | Some ch \<Rightarrow> (heap s c)\<lparr>Send := ch\<rparr>)
              else heap s c) = (heap s c)\<lparr>Send := (Send (heap s c))\<lparr>buf := buf (Send (heap s c))\<rparr>\<rparr>"
        by auto
      then show ?thesis by blast
    qed
  qed
qed

lemma broadcastEvents_onlyFrames:
  "broadcastEvents marshal s evts = Some s' \<Longrightarrow> onlyFrames s s'"
proof (induction evts arbitrary: s)
  case Nil
  then show ?case by (simp add: onlyFrames_refl)
next
  case (Cons evt evts)
  then obtain s1 where a: "broadcastZone marshal s uuid_Nil (fst evt) (snd evt) = Some s1"
    and b: "broadcastEvents marshal s1 evts = Some s'"
    by (auto split: option.splits)
  show ?case
    using onlyFrames_trans[OF broadcastZone_onlyFrames[OF a] Cons.IH[OF b]] .
qed

lemma broadcastZone_total:
  "chansOpen s \<Longrightarrow> \<exists>s'. broadcastZone marshal s skip zone p = Some s'"
  by (simp add: broadcastZone_open)

lemma broadcastEvents_total:
  "chansOpen s \<Longrightarrow> \<exists>s'. broadcastEvents marshal s evts = Some s'"
proof (induction evts arbitrary: s)
  case Nil
  then show ?case by simp
next
  case (Cons evt evts)
  from broadcastZone_total[OF Cons.prems] obtain s1
    where a: "broadcastZone marshal s uuid_Nil (fst evt) (snd evt) = Some s1" by blast
  have "chansOpen s1"
    using onlyFrames_chansOpen[OF broadcastZone_onlyFrames[OF a]] Cons.prems by simp
  from Cons.IH[OF this] show ?case using a by simp
qed

subsection \<open>Broadcasts\<close>

lemma chansOpen_duel: "chansOpen duel"
  by (simp add: chansOpen_def duel_def session_def)

text \<open>
  C9. A broadcast of a payload to a zone, with an optional character id to skip,
  serialises the payload once and offers the frame to the queue of exactly the
  registered sessions whose character id is set, whose player runtime exists in that zone,
  and whose character id is not the skipped one; a session whose queue already holds 128
  frames loses the frame, every other recipient gets it, and nothing else changes.
\<close>

theorem broadcastZone_delivery:
  assumes "chansOpen s" and "marshal p = Some b"
  shows "\<exists>s'. broadcastZone marshal s skip zone p = Some s' \<and> onlyFrames s s' \<and>
           (\<forall>c. buf (Send (heap s' c)) =
              (if isRecipient s skip zone c \<and> length (buf (Send (heap s c))) < 128
               then buf (Send (heap s c)) @ [b] else buf (Send (heap s c))))"
proof -
  let ?s' = "s\<lparr>heap := (\<lambda>c. if isRecipient s skip zone c then offer b (heap s c) else heap s c)\<rparr>"
  have a: "broadcastZone marshal s skip zone p = Some ?s'"
    using assms by (simp add: broadcastZone_open)
  have "onlyFrames s ?s'"
    using broadcastZone_onlyFrames[OF a] .
  moreover have "buf (Send (heap ?s' c)) =
              (if isRecipient s skip zone c \<and> length (buf (Send (heap s c))) < 128
               then buf (Send (heap s c)) @ [b] else buf (Send (heap s c)))" for c
    by (simp add: offer_def)
  ultimately show ?thesis using a by blast
qed

theorem broadcastZone_delivery_witness:
  "chansOpen duel \<and>
   (\<exists>s'. broadcastZone Some duel uuid_Nil ''starter-zone'' (PlayerLeft 9) = Some s' \<and>
      buf (Send (heap s' 1)) = [PlayerLeft 9] \<and>
      buf (Send (heap s' 2)) = replicate 128 (Broadcast ''hello'') \<and>
      buf (Send (heap s' 3)) = [])"
proof -
  from broadcastZone_delivery[OF chansOpen_duel, of Some "PlayerLeft 9" "PlayerLeft 9" uuid_Nil "''starter-zone''"]
  obtain s' where a: "broadcastZone Some duel uuid_Nil ''starter-zone'' (PlayerLeft 9) = Some s'"
    and b: "\<And>c. buf (Send (heap s' c)) =
              (if isRecipient duel uuid_Nil ''starter-zone'' c \<and> length (buf (Send (heap duel c))) < 128
               then buf (Send (heap duel c)) @ [PlayerLeft 9] else buf (Send (heap duel c)))"
    by auto
  have "buf (Send (heap s' 1)) = [PlayerLeft 9]"
    by (subst b) (simp add: isRecipient_def duel_def session_def newPlayer_def uuid_Nil_def)
  moreover have "buf (Send (heap s' 2)) = replicate 128 (Broadcast ''hello'')"
    by (subst b) (simp add: duel_def session_def)
  moreover have "buf (Send (heap s' 3)) = []"
    by (subst b) (simp add: isRecipient_def duel_def session_def)
  ultimately show ?thesis using a chansOpen_duel by blast
qed

subsection \<open>Sessions without a player runtime\<close>

lemma Hypot_eq: "0 \<le> c \<Longrightarrow> a * a + b * b = c * c \<Longrightarrow> Hypot a b = c"
  by (simp add: Hypot_def real_sqrt_unique power2_eq_square)

lemma Hypot_gt: "0 \<le> c \<Longrightarrow> c * c < a * a + b * b \<Longrightarrow> c < Hypot a b"
  unfolding Hypot_def by (rule real_less_rsqrt) (simp add: power2_eq_square)

lemma Hypot_le: "0 \<le> c \<Longrightarrow> a * a + b * b \<le> c * c \<Longrightarrow> Hypot a b \<le> c"
  unfolding Hypot_def by (rule real_le_lsqrt) (simp_all add: power2_eq_square)

lemma nonBlockingSendJSON_open:
  assumes "\<not> closed (Send (heap s c))"
  shows "nonBlockingSendJSON marshal s c p =
     Some (case marshal p of
             None \<Rightarrow> s
           | Some b \<Rightarrow> s\<lparr>heap := (heap s)(c := offer b (heap s c))\<rparr>)"
proof (cases "marshal p")
  case None
  then show ?thesis by (simp add: nonBlockingSendJSON_def)
next
  case (Some b)
  have "(heap s c)\<lparr>Send := if length (buf (Send (heap s c))) < 128
                            then (Send (heap s c))\<lparr>buf := buf (Send (heap s c)) @ [b]\<rparr>
                            else Send (heap s c)\<rparr> = offer b (heap s c)"
    by (simp add: offer_def)
  then show ?thesis
    using Some assms by (simp add: nonBlockingSendJSON_def nonBlockingSend_open)
qed

text \<open>
  C10. A session without a player runtime (it has not joined, or its character id is
  not in the player table): its move and its attack leave the whole state as it is, so no
  player or mob changes, no frame is queued for anyone, not even an error frame, and no
  position is persisted; unregistering it removes the session, closes its queue and
  closes its connection, and does nothing else: no frame to anyone, nothing persisted.
\<close>

theorem no_runtime_commands_are_silent:
  assumes "players s (CharacterID (heap s c)) = None"
    and "\<not> closed (Send (heap s c))"
  shows "Move marshal s c dx dy = Some s \<and>
         Attack marshal s c targetID = Some s \<and>
         UnregisterClient marshal s c =
           Some (s\<lparr>clients := clients s - {c},
                   heap := (heap s)(c := (heap s c)
                     \<lparr>Send := (Send (heap s c))\<lparr>closed := True\<rparr>,
                      Conn := (case Conn (heap s c) of
                                 None \<Rightarrow> None
                               | Some w \<Rightarrow> Some (WSConn True))\<rparr>)\<rparr>)"
proof (intro conjI)
  show "Move marshal s c dx dy = Some s"
    using assms(1) by (simp add: Move_def Let_def split: prod.splits)
  show "Attack marshal s c targetID = Some s"
    using assms(1) by (simp add: Attack_def Let_def)
  show "UnregisterClient marshal s c =
           Some (s\<lparr>clients := clients s - {c},
                   heap := (heap s)(c := (heap s c)
                     \<lparr>Send := (Send (heap s c))\<lparr>closed := True\<rparr>,
                      Conn := (case Conn (heap s c) of
                                 None \<Rightarrow> None
                               | Some w \<Rightarrow> Some (WSConn True))\<rparr>)\<rparr>)"
  proof (cases "Conn (heap s c)")
    case None
    then have xy: "(heap s c)\<lparr>Send := ch, Conn := None\<rparr> = (heap s c)\<lparr>Send := ch\<rparr>" for ch
      by (cases "heap s c") simp
    have "UnregisterClient marshal s c =
            Some (s\<lparr>clients := clients s - {c},
                    heap := (heap s)(c := (heap s c)\<lparr>Send := (Send (heap s c))\<lparr>closed := True\<rparr>\<rparr>)\<rparr>)"
      using assms None
      by (simp add: UnregisterClient_def Let_def close_Send_def close_Conn_def)
    then show ?thesis
      by (simp only: None option.case xy)
  next
    case (Some w)
    then show ?thesis
      using assms
      by (simp add: UnregisterClient_def Let_def close_Send_def close_Conn_def)
  qed
qed

theorem no_runtime_commands_are_silent_witness:
  "players duel (CharacterID (heap duel 3)) = None \<and>
   \<not> closed (Send (heap duel 3)) \<and>
   Move Some duel 3 1 0 = Some duel \<and>
   Attack Some duel 3 ''mob-slime-1'' = Some duel \<and>
   UnregisterClient Some duel 3 =
     Some (duel\<lparr>clients := {1, 2},
                heap := (heap duel)(3 := (session 5 uuid_Nil [])
                          \<lparr>Send := \<lparr>buf = [], closed = True\<rparr>\<rparr>)\<rparr>)"
proof -
  have a: "players duel (CharacterID (heap duel 3)) = None"
    by (simp add: duel_def session_def uuid_Nil_def)
  have b: "\<not> closed (Send (heap duel 3))"
    by (simp add: duel_def session_def)
  have c: "clients duel - {3} = {1, 2}"
    by (auto simp add: duel_def)
  have d: "(heap duel 3)\<lparr>Send := (Send (heap duel 3))\<lparr>closed := True\<rparr>,
              Conn := (case Conn (heap duel 3) of None \<Rightarrow> None | Some w \<Rightarrow> Some (WSConn True))\<rparr>
           = (session 5 uuid_Nil [])\<lparr>Send := \<lparr>buf = [], closed = True\<rparr>\<rparr>"
    by (simp add: duel_def session_def)
  show ?thesis
    using no_runtime_commands_are_silent[OF a b, of Some 1 0 "''mob-slime-1''"] a b
    by (simp only: c d simp_thms)
qed

subsection \<open>Refused attacks\<close>

lemma aria_out_of_range: "distance 2.5 2.5 (mX slime) (mY slime) > playerAttackRange"
  unfolding distance_def playerAttackRange_def
  by (rule Hypot_gt) (simp_all add: slime_def)

text \<open>
  C7, as the code has it. An attack by a live player whose session's queue is open is
  refused with one error frame offered to that session's queue and no other change (no
  combat frame to anyone, no mob or player touched, nothing persisted): the message is
  "target out of range" when the mob is alive and farther than 1.3, and "invalid mob
  target" when the mob is dead or unknown. The frame is offered without blocking: it is
  appended when the queue holds fewer than 128 frames and dropped when the queue is full.
\<close>

theorem attack_refused:
  assumes "players s (CharacterID (heap s c)) = Some pr"
    and "\<not> closed (Send (heap s c))"
    and "marshal (ErrorFrame ''target out of range'') = Some far"
    and "marshal (ErrorFrame ''invalid mob target'') = Some invalid"
  shows "(\<forall>mob. mobs s targetID = Some mob \<and> mAlive (State mob) \<and>
            distance (pX pr) (pY pr) (mX (State mob)) (mY (State mob)) > 1.3 \<longrightarrow>
            Attack marshal s c targetID = Some (s\<lparr>heap := (heap s)(c := offer far (heap s c))\<rparr>)) \<and>
         (mobs s targetID = None \<or> (\<exists>mob. mobs s targetID = Some mob \<and> \<not> mAlive (State mob)) \<longrightarrow>
            Attack marshal s c targetID =
              Some (s\<lparr>heap := (heap s)(c := offer invalid (heap s c))\<rparr>))"
  using assms
  by (auto simp add: Attack_def Let_def nonBlockingSendJSON_open playerAttackRange_def)

theorem attack_refused_witness:
  "players duel (CharacterID (heap duel 2)) = Some (newPlayer aria 2.5 2.5 ''starter-zone'') \<and>
   \<not> closed (Send (heap duel 2)) \<and>
   mobs duel ''mob-slime-1'' = Some (newMobRuntime slime) \<and> mAlive slime \<and>
   distance 2.5 2.5 (mX slime) (mY slime) > 1.3 \<and>
   Attack Some duel 2 ''mob-slime-1'' =
     Some (duel\<lparr>heap := (heap duel)(2 := offer (ErrorFrame ''target out of range'') (heap duel 2))\<rparr>) \<and>
   Attack Some duel 2 ''mob-ghost'' =
     Some (duel\<lparr>heap := (heap duel)(2 := offer (ErrorFrame ''invalid mob target'') (heap duel 2))\<rparr>)"
proof -
  have a: "players duel (CharacterID (heap duel 2)) = Some (newPlayer aria 2.5 2.5 ''starter-zone'')"
    by (simp add: duel_def session_def aria_def)
  have b: "\<not> closed (Send (heap duel 2))"
    by (simp add: duel_def session_def)
  have c: "mobs duel ''mob-slime-1'' = Some (newMobRuntime slime)" "mobs duel ''mob-ghost'' = None"
    by (simp_all add: duel_def)
  have d: "mAlive slime" "mAlive (State (newMobRuntime slime))"
    by (simp_all add: slime_def newMobRuntime_def)
  have e: "distance 2.5 2.5 (mX slime) (mY slime) > 1.3"
    using aria_out_of_range by (simp add: playerAttackRange_def)
  then have e': "distance (pX (newPlayer aria 2.5 2.5 ''starter-zone'')) (pY (newPlayer aria 2.5 2.5 ''starter-zone''))
        (mX (State (newMobRuntime slime))) (mY (State (newMobRuntime slime))) > 1.3"
    by (simp add: newPlayer_def newMobRuntime_def)
  note t1 = attack_refused[OF a b, of Some "ErrorFrame ''target out of range''" "ErrorFrame ''invalid mob target''" "''mob-slime-1''"]
  note t2 = attack_refused[OF a b, of Some "ErrorFrame ''target out of range''" "ErrorFrame ''invalid mob target''" "''mob-ghost''"]
  show ?thesis
    using t1 t2 a b c d e e' by simp
qed

text \<open>
  The out-of-range attack of session 2, whose queue is full: the error frame is dropped
  and the state is exactly as before, so no error frame reaches the caller.
\<close>

theorem attack_error_dropped_on_full_queue:
  "players duel (CharacterID (heap duel 2)) = Some (newPlayer aria 2.5 2.5 ''starter-zone'') \<and>
   mobs duel ''mob-slime-1'' = Some (newMobRuntime slime) \<and> mAlive slime \<and>
   distance 2.5 2.5 (mX slime) (mY slime) > playerAttackRange \<and>
   length (buf (Send (heap duel 2))) = 128 \<and>
   Attack Some duel 2 ''mob-slime-1'' = Some duel"
proof -
  have a: "players duel (CharacterID (heap duel 2)) = Some (newPlayer aria 2.5 2.5 ''starter-zone'')"
    by (simp add: duel_def session_def aria_def)
  have b: "\<not> closed (Send (heap duel 2))" "length (buf (Send (heap duel 2))) = 128"
    by (simp_all add: duel_def session_def)
  have c: "mobs duel ''mob-slime-1'' = Some (newMobRuntime slime)"
    by (simp add: duel_def)
  have d: "mAlive slime" "mAlive (State (newMobRuntime slime))"
    by (simp_all add: slime_def newMobRuntime_def)
  have e: "distance (pX (newPlayer aria 2.5 2.5 ''starter-zone'')) (pY (newPlayer aria 2.5 2.5 ''starter-zone''))
        (mX (State (newMobRuntime slime))) (mY (State (newMobRuntime slime))) > playerAttackRange"
    using aria_out_of_range by (simp add: newPlayer_def newMobRuntime_def)
  have f: "offer (ErrorFrame ''target out of range'') (heap duel 2) = heap duel 2"
    using b by (simp add: offer_def)
  have "Attack Some duel 2 ''mob-slime-1'' = Some (duel\<lparr>heap := (heap duel)(2 := heap duel 2)\<rparr>)"
    using a b c d e by (simp add: Attack_def Let_def nonBlockingSendJSON_open f)
  then have "Attack Some duel 2 ''mob-slime-1'' = Some duel"
    by simp
  then show ?thesis
    using a b c d aria_out_of_range by simp
qed

subsection \<open>Move\<close>

lemma broadcastZone_emitted:
  "chansOpen s \<Longrightarrow> broadcastZone marshal s skip zone p = Some (emitted marshal s skip zone p)"
  by (simp add: broadcastZone_open emitted_def)


lemma slide_gridOk:
  assumes "gridOk m"
  shows "slide m pr stepX stepY =
     Some (pr\<lparr>pX := (if walkable_radius m (pX pr + stepX) (pY pr) 0.2 then pX pr + stepX else pX pr),
              pY := (if walkable_radius m
                          (if walkable_radius m (pX pr + stepX) (pY pr) 0.2 then pX pr + stepX else pX pr)
                          (pY pr + stepY) 0.2
                     then pY pr + stepY else pY pr)\<rparr>)"
  by (simp add: slide_def isWalkableWithRadius_gridOk[OF assms] playerCollisionRadius_def Let_def)

lemma MaxFloat64_gt: "13 < MaxFloat64"
  by (simp add: MaxFloat64_def)





lemma gridOk_arenaMap: "gridOk arenaMap"
  by (simp add: arenaMap_def gridOk_def)

lemma worldMap_duel: "worldMap duel = arenaMap"
  by (simp add: duel_def)













subsection \<open>Join\<close>

lemma joinPosition_gridOk:
  assumes "gridOk m"
  shows "joinPosition m posX posY =
     Some (if posX \<le> 0 \<and> posY \<le> 0
           then (if walkable m (spX (Spawn m)) (spY (Spawn m))
                 then (spX (Spawn m), spY (Spawn m)) else (1.5, 1.5))
           else (if walkable m posX posY then (posX, posY) else (1.5, 1.5)))"
  by (simp add: joinPosition_def isWalkable_gridOk[OF assms])

lemma nonBlockingSendJSON_total:
  "\<not> closed (Send (heap s c)) \<Longrightarrow> \<exists>s'. nonBlockingSendJSON marshal s c p = Some s'"
  by (simp add: nonBlockingSendJSON_open)

text \<open>The state \<^verbatim>\<open>Join\<close> leaves, up to the frames it queues.\<close>

lemma Join_Some:
  assumes "Join marshal pk mk s c char = Some s'"
    and xy: "joinPosition (worldMap s) (chPosX char) (chPosY char) = Some (x, y)"
  shows "onlyFrames (s\<lparr>heap := (heap s)(c := (heap s c)\<lparr>CharacterID := chID char\<rparr>),
                       players := (players s)(chID char \<mapsto> newPlayer char x y (zoneID s))\<rparr>) s'"
proof -
  let ?j = "s\<lparr>heap := (heap s)(c := (heap s c)\<lparr>CharacterID := chID char\<rparr>),
              players := (players s)(chID char \<mapsto> newPlayer char x y (zoneID s))\<rparr>"
  from assms obtain s3 s4 where
    a: "nonBlockingSendJSON marshal ?j c
          (Welcome (pID (newPlayer char x y (zoneID s))) (newPlayer char x y (zoneID s)) (zoneID ?j)
             \<lparr>wsZoneID = zoneID ?j, wsMap = worldMap ?j,
              wsPlayers = playersInZoneLocked ?j pk (zoneID ?j),
              wsMobs = mobStatesLocked ?j mk (zoneID ?j), wsNPCs = npcs ?j\<rparr>) = Some s3"
    and b: "broadcastZone marshal s3 (chID char) (zoneID s3) (PlayerJoined (newPlayer char x y (zoneID s))) = Some s4"
    and c: "broadcastZone marshal s4 uuid_Nil (zoneID s4)
              (Broadcast (pName (newPlayer char x y (zoneID s)) @ '' joined the world'')) = Some s'"
    by (auto simp add: Join_def Let_def split: option.splits)
  show "onlyFrames ?j s'"
    using onlyFrames_trans[OF nonBlockingSendJSON_onlyFrames[OF a]
        onlyFrames_trans[OF broadcastZone_onlyFrames[OF b] broadcastZone_onlyFrames[OF c]]] .
qed

lemma Join_Some_position:
  "Join marshal pk mk s c char = Some s' \<Longrightarrow>
   \<exists>x y. joinPosition (worldMap s) (chPosX char) (chPosY char) = Some (x, y)"
  by (auto simp add: Join_def split: option.splits)

lemma Join_total:
  assumes "joinPosition (worldMap s) (chPosX char) (chPosY char) = Some (x, y)"
    and "chansOpen s" and "\<not> closed (Send (heap s c))"
  shows "\<exists>s'. Join marshal pk mk s c char = Some s'"
proof -
  let ?j = "s\<lparr>heap := (heap s)(c := (heap s c)\<lparr>CharacterID := chID char\<rparr>),
              players := (players s)(chID char \<mapsto> newPlayer char x y (zoneID s))\<rparr>"
  have oc: "\<not> closed (Send (heap ?j c))" using assms(3) by simp
  have oj: "chansOpen ?j" using assms(2) by (simp add: chansOpen_def)
  from nonBlockingSendJSON_total[OF oc] obtain s3 where
    a: "nonBlockingSendJSON marshal ?j c
          (Welcome (pID (newPlayer char x y (zoneID s))) (newPlayer char x y (zoneID s)) (zoneID ?j)
             \<lparr>wsZoneID = zoneID ?j, wsMap = worldMap ?j,
              wsPlayers = playersInZoneLocked ?j pk (zoneID ?j),
              wsMobs = mobStatesLocked ?j mk (zoneID ?j), wsNPCs = npcs ?j\<rparr>) = Some s3"
    by blast
  have o3: "chansOpen s3"
    using onlyFrames_chansOpen[OF nonBlockingSendJSON_onlyFrames[OF a]] oj by simp
  from broadcastZone_total[OF o3] obtain s4 where
    b: "broadcastZone marshal s3 (chID char) (zoneID s3) (PlayerJoined (newPlayer char x y (zoneID s))) = Some s4"
    by blast
  have o4: "chansOpen s4"
    using onlyFrames_chansOpen[OF broadcastZone_onlyFrames[OF b]] o3 by simp
  from broadcastZone_total[OF o4] obtain s' where
    c: "broadcastZone marshal s4 uuid_Nil (zoneID s4)
              (Broadcast (pName (newPlayer char x y (zoneID s)) @ '' joined the world'')) = Some s'"
    by blast
  show ?thesis
    using assms(1) a b c by (simp add: Join_def Let_def)
qed

lemma heap_duel:
  "heap duel 1 = session 3 8 []"
  "heap duel 2 = session 3 7 (replicate 128 (Broadcast ''hello''))"
  "heap duel 3 = session 5 uuid_Nil []"
  by (simp_all add: duel_def)

lemma walkable_arena_corner: "\<not> walkable arenaMap 0.5 0.5"
  by (simp add: walkable_def arenaMap_def)

lemma walkable_arena_outside: "\<not> walkable arenaMap (- 1) 2.5"
  by (simp add: walkable_def arenaMap_def)

lemma walkable_arena_spawn: "walkable arenaMap 2.5 2.5"
  by (simp add: walkable_def arenaMap_def)

lemma Spawn_arenaMap: "spX (Spawn arenaMap) = 2.5" "spY (Spawn arenaMap) = 2.5"
  by (simp_all add: arenaMap_def)

text \<open>
  The position \<^verbatim>\<open>Join\<close> computes (on a loaded grid, the queues open): the saved position
  unless both saved coordinates are non-positive, in which case the spawn point of the
  map; and \<open>(1.5, 1.5)\<close> instead when the point so chosen is not walkable (radius 0).
\<close>

lemma join_position:
  assumes "gridOk (worldMap s)" and "chansOpen s" and "\<not> closed (Send (heap s c))"
  shows "let m = worldMap s;
             chosen = (if chPosX char \<le> 0 \<and> chPosY char \<le> 0
                       then (spX (Spawn m), spY (Spawn m)) else (chPosX char, chPosY char));
             pos = (if walkable m (fst chosen) (snd chosen) then chosen else (1.5, 1.5))
         in \<exists>s'. Join marshal pk mk s c char = Some s' \<and>
              players s' (chID char) = Some (newPlayer char (fst pos) (snd pos) (zoneID s))"
proof -
  define m where "m = worldMap s"
  define chosen where "chosen = (if chPosX char \<le> 0 \<and> chPosY char \<le> 0
                       then (spX (Spawn m), spY (Spawn m)) else (chPosX char, chPosY char))"
  define pos where "pos = (if walkable m (fst chosen) (snd chosen) then chosen else (1.5, 1.5))"
  have jp: "joinPosition (worldMap s) (chPosX char) (chPosY char) = Some (fst pos, snd pos)"
    by (simp add: joinPosition_gridOk[OF assms(1)] pos_def chosen_def m_def)
  from Join_total[OF jp assms(2,3)] obtain s'
    where j: "Join marshal pk mk s c char = Some s'" by blast
  from Join_Some[OF j jp] have
    "onlyFrames (s\<lparr>heap := (heap s)(c := (heap s c)\<lparr>CharacterID := chID char\<rparr>),
                   players := (players s)(chID char \<mapsto> newPlayer char (fst pos) (snd pos) (zoneID s))\<rparr>) s'"
    by auto
  from onlyFrames_fields(1)[OF this]
  have "players s' (chID char) = Some (newPlayer char (fst pos) (snd pos) (zoneID s))"
    by simp
  with j show ?thesis
    unfolding Let_def m_def[symmetric] chosen_def[symmetric] pos_def[symmetric] by blast
qed

lemma join_position_arena:
  "gridOk (worldMap duel) \<and> chansOpen duel \<and> \<not> closed (Send (heap duel 3)) \<and>
   (\<exists>s'. Join Some [8, 7] [''mob-slime-1''] duel 3 aria = Some s' \<and>
      players s' 7 = Some (newPlayer aria 2.5 2.5 ''starter-zone'')) \<and>
   (\<exists>s'. Join Some [8, 7] [''mob-slime-1''] duel 3 bren = Some s' \<and>
      players s' 8 = Some (newPlayer bren 3.5 2.5 ''starter-zone'')) \<and>
   (\<exists>s'. Join Some [8, 7] [''mob-slime-1''] duel 3 cole = Some s' \<and>
      players s' 9 = Some (newPlayer cole 1.5 1.5 ''starter-zone''))"
proof -
  have g: "gridOk (worldMap duel)"
    by (simp add: worldMap_duel gridOk_arenaMap)
  have o: "\<not> closed (Send (heap duel 3))"
    by (simp add: heap_duel session_def)
  have z: "zoneID duel = ''starter-zone''"
    by (simp add: duel_def)
  have w: "walkable arenaMap 3.5 2.5"
    by (simp add: walkable_def arenaMap_def)
  note t = join_position[OF g chansOpen_duel o, of _ Some "[8, 7]" "[''mob-slime-1'']",
      unfolded Let_def worldMap_duel z]
  have a: "\<exists>s'. Join Some [8, 7] [''mob-slime-1''] duel 3 aria = Some s' \<and>
      players s' 7 = Some (newPlayer aria 2.5 2.5 ''starter-zone'')"
    using t[of aria] walkable_arena_spawn by (simp add: aria_def Spawn_arenaMap)
  have b: "\<exists>s'. Join Some [8, 7] [''mob-slime-1''] duel 3 bren = Some s' \<and>
      players s' 8 = Some (newPlayer bren 3.5 2.5 ''starter-zone'')"
    using t[of bren] w by (simp add: bren_def)
  have c: "\<exists>s'. Join Some [8, 7] [''mob-slime-1''] duel 3 cole = Some s' \<and>
      players s' 9 = Some (newPlayer cole 1.5 1.5 ''starter-zone'')"
    using t[of cole] walkable_arena_corner by (simp add: cole_def)
  show ?thesis
    using g chansOpen_duel o a b c by blast
qed

text \<open>
  C2 on the code. A joining player is to be created at the saved position when both
  coordinates are positive and the point is walkable, otherwise at the spawn point of the
  map, and at \<open>(1.5, 1.5)\<close> only when that is not walkable either; the comment at the head
  of \<^verbatim>\<open>Join\<close> says the same (\<^verbatim>\<open>fallback to spawn if invalid\<close>). Cole's saved position
  \<open>(0.5, 0.5)\<close> has both coordinates positive and is a wall tile, and the spawn point
  \<open>(2.5, 2.5)\<close> of the arena is walkable: the position to choose is the spawn point, and
  \<^verbatim>\<open>Join\<close> creates Cole at \<open>(1.5, 1.5)\<close>. A saved position of \<open>(-1, 2.5)\<close>, with one
  coordinate that is not positive, is not replaced by the spawn point either: the guard
  of \<^verbatim>\<open>Join\<close> asks for both coordinates to be non-positive, and an unwalkable point goes
  straight to \<open>(1.5, 1.5)\<close>.
\<close>

theorem join_unwalkable_saved_position_skips_spawn:
  "0 < chPosX cole \<and> 0 < chPosY cole \<and>
   \<not> walkable (worldMap duel) (chPosX cole) (chPosY cole) \<and>
   claimedJoinPosition (worldMap duel) (chPosX cole) (chPosY cole) = (2.5, 2.5) \<and>
   Join Some [8, 7] [''mob-slime-1''] duel 3 cole \<noteq> None \<and>
   players (the (Join Some [8, 7] [''mob-slime-1''] duel 3 cole)) (chID cole) =
     Some (newPlayer cole 1.5 1.5 ''starter-zone'') \<and>
   claimedJoinPosition (worldMap duel) (- 1) 2.5 = (2.5, 2.5) \<and>
   joinPosition (worldMap duel) (- 1) 2.5 = Some (1.5, 1.5)"
proof -
  have o: "\<not> closed (Send (heap duel 3))"
    by (simp add: heap_duel session_def)
  have p: "0 < chPosX cole" "0 < chPosY cole" "chPosX cole = 0.5" "chPosY cole = 0.5" "chID cole = 9"
    by (simp_all add: cole_def)
  have jp: "joinPosition (worldMap duel) (chPosX cole) (chPosY cole) = Some (1.5, 1.5)"
    using walkable_arena_corner
    by (simp add: joinPosition_gridOk[OF gridOk_arenaMap] worldMap_duel p)
  from Join_total[OF jp chansOpen_duel o] obtain s'
    where j: "Join Some [8, 7] [''mob-slime-1''] duel 3 cole = Some s'" by blast
  from Join_Some[OF j jp] have
    "onlyFrames (duel\<lparr>heap := (heap duel)(3 := (heap duel 3)\<lparr>CharacterID := chID cole\<rparr>),
                   players := (players duel)(chID cole \<mapsto> newPlayer cole 1.5 1.5 (zoneID duel))\<rparr>) s'"
    by auto
  from onlyFrames_fields(1)[OF this]
  have pl: "players s' (chID cole) = Some (newPlayer cole 1.5 1.5 ''starter-zone'')"
    by (simp add: duel_def)
  have c1: "claimedJoinPosition (worldMap duel) (chPosX cole) (chPosY cole) = (2.5, 2.5)"
    using walkable_arena_corner walkable_arena_spawn
    by (simp add: claimedJoinPosition_def worldMap_duel p Spawn_arenaMap)
  have c2: "claimedJoinPosition (worldMap duel) (- 1) 2.5 = (2.5, 2.5)"
    using walkable_arena_spawn
    by (simp add: claimedJoinPosition_def worldMap_duel Spawn_arenaMap)
  have j2: "joinPosition (worldMap duel) (- 1) 2.5 = Some (1.5, 1.5)"
    using walkable_arena_outside
    by (simp add: joinPosition_gridOk[OF gridOk_arenaMap] worldMap_duel)
  have nw: "\<not> walkable (worldMap duel) (chPosX cole) (chPosY cole)"
    using walkable_arena_corner by (simp add: worldMap_duel p)
  show ?thesis
    using p(1,2) nw c1 j pl c2 j2 by simp
qed

text \<open>
  C8 on the code: session 1 plays Bren (character 8) and joins again as Cole
  (character 9). Afterwards the session controls character 9, and Bren's runtime is
  still in the player table, with no session left to remove it.
\<close>

theorem rejoin_keeps_old_runtime:
  "CharacterID (heap duel 1) = 8 \<and>
   players duel 8 = Some (newPlayer bren 3.5 2.5 ''starter-zone'') \<and>
   Join Some [8, 7] [''mob-slime-1''] duel 1 cole \<noteq> None \<and>
   CharacterID (heap (the (Join Some [8, 7] [''mob-slime-1''] duel 1 cole)) 1) = 9 \<and>
   players (the (Join Some [8, 7] [''mob-slime-1''] duel 1 cole)) 9 =
     Some (newPlayer cole 1.5 1.5 ''starter-zone'') \<and>
   players (the (Join Some [8, 7] [''mob-slime-1''] duel 1 cole)) 8 =
     Some (newPlayer bren 3.5 2.5 ''starter-zone'')"
proof -
  have o: "\<not> closed (Send (heap duel 1))"
    by (simp add: duel_def session_def)
  have p: "chPosX cole = 0.5" "chPosY cole = 0.5" "chID cole = 9"
    by (simp_all add: cole_def)
  have jp: "joinPosition (worldMap duel) (chPosX cole) (chPosY cole) = Some (1.5, 1.5)"
    using walkable_arena_corner
    by (simp add: joinPosition_gridOk[OF gridOk_arenaMap] worldMap_duel p)
  from Join_total[OF jp chansOpen_duel o] obtain s'
    where j: "Join Some [8, 7] [''mob-slime-1''] duel 1 cole = Some s'" by blast
  from Join_Some[OF j jp] have fr:
    "onlyFrames (duel\<lparr>heap := (heap duel)(1 := (heap duel 1)\<lparr>CharacterID := chID cole\<rparr>),
                   players := (players duel)(chID cole \<mapsto> newPlayer cole 1.5 1.5 (zoneID duel))\<rparr>) s'"
    by auto
  have a: "players s' 9 = Some (newPlayer cole 1.5 1.5 ''starter-zone'')"
    using onlyFrames_fields(1)[OF fr] by (simp add: duel_def p)
  have b: "players s' 8 = Some (newPlayer bren 3.5 2.5 ''starter-zone'')"
    using onlyFrames_fields(1)[OF fr] by (simp add: duel_def p)
  have c: "CharacterID (heap s' 1) = 9"
    using onlyFrames_fields(10)[OF fr, of 1] by (simp add: p)
  have d: "CharacterID (heap duel 1) = 8" "players duel 8 = Some (newPlayer bren 3.5 2.5 ''starter-zone'')"
    by (simp_all add: duel_def session_def)
  show ?thesis
    using a b c d j by simp
qed

subsection \<open>Mob steps\<close>

lemma mobStepOk_refl: "mobStepOk m mob mob"
  by (simp add: mobStepOk_def)

lemma mobStepOk_trans:
  "mobStepOk m a b \<Longrightarrow> mobStepOk m b c \<Longrightarrow> mobStepOk m a c"
  unfolding mobStepOk_def withinPatrol_def by auto

lemma playerStepOk_refl: "playerStepOk m p p"
  by (simp add: playerStepOk_def)

lemma playerStepOk_trans:
  "playerStepOk m a b \<Longrightarrow> playerStepOk m b c \<Longrightarrow> playerStepOk m a c"
  unfolding playerStepOk_def by auto

lemma rel_option_refl: "(\<And>x. R x x) \<Longrightarrow> rel_option R a a"
  by (cases a) simp_all

lemma rel_option_trans:
  "(\<And>x y z. R x y \<Longrightarrow> R y z \<Longrightarrow> R x z) \<Longrightarrow> rel_option R a b \<Longrightarrow> rel_option R b c
   \<Longrightarrow> rel_option R a c"
  by (cases a; cases b; cases c) auto

lemma tickRel_refl: "tickRel s s"
  by (simp add: tickRel_def rel_option_refl mobStepOk_refl playerStepOk_refl)

lemma tickRel_worldMap: "tickRel s s' \<Longrightarrow> worldMap s' = worldMap s"
proof -
  assume "tickRel s s'"
  then have "s' = s\<lparr>mobs := mobs s', players := players s', tick := tick s'\<rparr>"
    by (simp add: tickRel_def)
  then have "worldMap s' = worldMap (s\<lparr>mobs := mobs s', players := players s', tick := tick s'\<rparr>)"
    by simp
  then show ?thesis by simp
qed

lemma tickRel_fields:
  assumes "tickRel s s'"
  shows "worldMap s' = worldMap s" "heap s' = heap s" "clients s' = clients s"
    "zoneID s' = zoneID s" "has_updater s' = has_updater s" "npcs s' = npcs s"
    "persisted s' = persisted s"
proof -
  from assms have e: "s' = s\<lparr>mobs := mobs s', players := players s', tick := tick s'\<rparr>"
    by (simp add: tickRel_def)
  show "worldMap s' = worldMap s" by (subst e) simp
  show "heap s' = heap s" by (subst e) simp
  show "clients s' = clients s" by (subst e) simp
  show "zoneID s' = zoneID s" by (subst e) simp
  show "has_updater s' = has_updater s" by (subst e) simp
  show "npcs s' = npcs s" by (subst e) simp
  show "persisted s' = persisted s" by (subst e) simp
qed

lemma tickRelI:
  assumes "\<And>k. rel_option (mobStepOk (worldMap s)) (mobs s k) (ms k)"
    and "\<And>t. rel_option (playerStepOk (worldMap s)) (players s t) (ps t)"
  shows "tickRel s (s\<lparr>mobs := ms, players := ps, tick := n\<rparr>)"
  using assms by (simp add: tickRel_def)

lemma tickRel_trans:
  assumes "tickRel s s'" and "tickRel s' s''"
  shows "tickRel s s''"
proof -
  have w: "worldMap s' = worldMap s" using tickRel_fields(1)[OF assms(1)] .
  from assms have e1: "s' = s\<lparr>mobs := mobs s', players := players s', tick := tick s'\<rparr>"
    and e2: "s'' = s'\<lparr>mobs := mobs s'', players := players s'', tick := tick s''\<rparr>"
    by (simp_all add: tickRel_def)
  have e: "s'' = s\<lparr>mobs := mobs s'', players := players s'', tick := tick s''\<rparr>"
    by (subst e2, subst e1) simp
  have m: "rel_option (mobStepOk (worldMap s)) (mobs s k) (mobs s'' k)" for k
    using assms w
    by (auto simp add: tickRel_def intro: rel_option_trans[OF mobStepOk_trans])
  have p: "rel_option (playerStepOk (worldMap s)) (players s t) (players s'' t)" for t
    using assms w
    by (auto simp add: tickRel_def intro: rel_option_trans[OF playerStepOk_trans])
  show ?thesis
    unfolding tickRel_def using e m p by blast
qed

lemma coolDown_simps [simp]:
  "State (coolDown mob) = State mob" "SpawnX (coolDown mob) = SpawnX mob"
  "SpawnY (coolDown mob) = SpawnY mob" "RespawnCounter (coolDown mob) = RespawnCounter mob"
  by (simp_all add: coolDown_def)

lemma moveMobTowardsLocked_ok:
  "moveMobTowardsLocked m mob x y = Some mob' \<Longrightarrow> mobStepOk m mob mob'"
  by (auto simp add: moveMobTowardsLocked_def Let_def mobStepOk_def withinPatrol_def
      split: if_splits option.splits)

lemma wanderMobLocked_ok:
  "wanderMobLocked m rf ri mob = Some mob' \<Longrightarrow> mobStepOk m mob mob'"
  by (auto simp add: wanderMobLocked_def Let_def mobStepOk_def withinPatrol_def
      split: if_splits option.splits)

lemma applyMobAttackLocked_ok:
  "applyMobAttackLocked m mob p = (p', evs) \<Longrightarrow> playerStepOk m p p'"
  by (auto simp add: applyMobAttackLocked_def Let_def playerStepOk_def split: if_splits)

lemma closestLoop_Some:
  "closestLoop ps zone x y rng keys best bestDist = Some (t, target) \<Longrightarrow>
   (\<And>t' p. best = Some (t', p) \<Longrightarrow> ps t' = Some p) \<Longrightarrow> ps t = Some target"
proof (induction keys arbitrary: best bestDist)
  case Nil
  then show ?case by simp
next
  case (Cons k keys)
  show ?case
  proof (cases "ps k")
    case None
    with Cons show ?thesis by simp
  next
    case (Some p)
    show ?thesis
    proof (cases "pZoneID p \<noteq> zone \<or> pHP p \<le> 0")
      case True
      with Cons Some show ?thesis by simp
    next
      case False
      show ?thesis
      proof (cases "distance x y (pX p) (pY p) \<le> rng \<and> distance x y (pX p) (pY p) < bestDist")
        case True
        with Cons.prems(1) Some False
        have "closestLoop ps zone x y rng keys (Some (k, p)) (distance x y (pX p) (pY p)) = Some (t, target)"
          by (simp add: Let_def)
        then show ?thesis
        proof (rule Cons.IH)
          fix t' p'
          assume "Some (k, p) = Some (t', p')"
          then show "ps t' = Some p'" using Some by simp
        qed
      next
        case c: False
        with Cons.prems(1) Some False
        have "closestLoop ps zone x y rng keys best bestDist = Some (t, target)"
          by (auto simp add: Let_def)
        then show ?thesis
          using Cons.prems(2) by (rule Cons.IH)
      qed
    qed
  qed
qed

lemma closestPlayerInRangeLocked_Some:
  "closestPlayerInRangeLocked s keys zone x y rng = Some (t, target) \<Longrightarrow>
   players s t = Some target"
  unfolding closestPlayerInRangeLocked_def by (erule closestLoop_Some) simp

lemma mobStepOk_coolDown [simp]:
  "mobStepOk m a (coolDown b) = mobStepOk m a b"
  "mobStepOk m (coolDown a) b = mobStepOk m a b"
  by (simp_all add: mobStepOk_def withinPatrol_def)

lemma tickRel_mob:
  assumes "mobs s k = Some mob" and "mobStepOk (worldMap s) mob mob'"
  shows "tickRel s (s\<lparr>mobs := (mobs s)(k \<mapsto> mob')\<rparr>)"
  using assms
  by (simp add: tickRel_def rel_option_refl mobStepOk_refl playerStepOk_refl)

lemma tickRel_mob_player:
  assumes "mobs s k = Some mob" and "mobStepOk (worldMap s) mob mob'"
    and "players s t = Some p" and "playerStepOk (worldMap s) p p'"
  shows "tickRel s (s\<lparr>players := (players s)(t \<mapsto> p'), mobs := (mobs s)(k \<mapsto> mob')\<rparr>)"
  using assms
  by (simp add: tickRel_def rel_option_refl mobStepOk_refl playerStepOk_refl)

lemma stepMob_tickRel:
  assumes "stepMob env s k = Some (s', evs)"
  shows "tickRel s s'"
proof (cases "mobs s k")
  case None
  with assms have "s' = s" by (simp add: stepMob_def)
  then show ?thesis by (simp add: tickRel_refl)
next
  case (Some mob)
  show ?thesis
  proof (cases "mAlive (State mob)")
    case False
    define mob1 where "mob1 = (if RespawnCounter mob > 0
                         then mob\<lparr>RespawnCounter := RespawnCounter mob - 1\<rparr> else mob)"
    have ok1: "mobStepOk (worldMap s) mob mob1"
      by (simp add: mob1_def mobStepOk_def)
    have ok2: "mobStepOk (worldMap s) mob
        (mob1\<lparr>State := (State mob1)\<lparr>mAlive := True, mHP := mMaxHP (State mob1),
                                   mX := SpawnX mob1, mY := SpawnY mob1\<rparr>\<rparr>)"
      by (simp add: mob1_def mobStepOk_def)
    from assms Some False have
      "s' = s\<lparr>mobs := (mobs s)(k \<mapsto> mob1)\<rparr> \<or>
       s' = s\<lparr>mobs := (mobs s)(k \<mapsto>
              mob1\<lparr>State := (State mob1)\<lparr>mAlive := True, mHP := mMaxHP (State mob1),
                                         mX := SpawnX mob1, mY := SpawnY mob1\<rparr>\<rparr>)\<rparr>"
      by (auto simp add: stepMob_def Let_def mob1_def[symmetric] split: if_splits)
    then show ?thesis
      using tickRel_mob[OF Some ok1] tickRel_mob[OF Some ok2] by auto
  next
    case True
    show ?thesis
    proof (cases "closestPlayerInRangeLocked s (player_order env k) (mZoneID (State mob))
                    (mX (State mob)) (mY (State mob)) mobAggroRange")
      case None
      with assms Some True obtain mob' where
        w: "wanderMobLocked (worldMap s) (rand_Float64 env k) (rand_Intn env k) (coolDown mob) = Some mob'"
        and s': "s' = s\<lparr>mobs := (mobs s)(k \<mapsto> mob')\<rparr>"
        by (auto simp add: stepMob_def split: option.splits)
      have "mobStepOk (worldMap s) mob mob'"
        using wanderMobLocked_ok[OF w] by simp
      then show ?thesis
        unfolding s' by (rule tickRel_mob[OF Some])
    next
      case c: (Some tt)
      obtain t target where tt: "tt = (t, target)" by (cases tt)
      have pt: "players s t = Some target"
        using closestPlayerInRangeLocked_Some c tt by blast
      show ?thesis
      proof (cases "distance (pX target) (pY target) (mX (State mob)) (mY (State mob))
                      \<le> mobAttackRange")
        case far: False
        with assms Some True c tt obtain mob' where
          mv: "moveMobTowardsLocked (worldMap s) mob (pX target) (pY target) = Some mob'"
          and s': "s' = s\<lparr>mobs := (mobs s)(k \<mapsto> coolDown mob')\<rparr>"
          by (auto simp add: stepMob_def split: option.splits)
        have "mobStepOk (worldMap s) mob (coolDown mob')"
          using moveMobTowardsLocked_ok[OF mv] by simp
        then show ?thesis
          unfolding s' by (rule tickRel_mob[OF Some])
      next
        case near: True
        show ?thesis
        proof (cases "AttackCooldown mob > 0")
          case cd: True
          with assms Some True c tt near have
            s': "s' = s\<lparr>mobs := (mobs s)(k \<mapsto> mob\<lparr>AttackCooldown := AttackCooldown mob - 1\<rparr>)\<rparr>"
            by (auto simp add: stepMob_def)
          have "mobStepOk (worldMap s) mob (mob\<lparr>AttackCooldown := AttackCooldown mob - 1\<rparr>)"
            by (simp add: mobStepOk_def)
          then show ?thesis
            unfolding s' by (rule tickRel_mob[OF Some])
        next
          case ready: False
          obtain target' events where
            ap: "applyMobAttackLocked (worldMap s) mob target = (target', events)"
            by (cases "applyMobAttackLocked (worldMap s) mob target")
          with assms Some True c tt near ready have
            s': "s' = s\<lparr>players := (players s)(t \<mapsto> target'),
                       mobs := (mobs s)(k \<mapsto> mob\<lparr>AttackCooldown := mobAttackCooldownTicks\<rparr>)\<rparr>"
            by (auto simp add: stepMob_def)
          have "mobStepOk (worldMap s) mob (mob\<lparr>AttackCooldown := mobAttackCooldownTicks\<rparr>)"
            by (simp add: mobStepOk_def)
          then show ?thesis
            unfolding s'
            using pt applyMobAttackLocked_ok[OF ap] by (rule tickRel_mob_player[OF Some])
        qed
      qed
    qed
  qed
qed

lemma stepMobsLoop_tickRel:
  "stepMobsLoop env s ks events = Some (s', events') \<Longrightarrow> tickRel s s'"
proof (induction ks arbitrary: s events)
  case Nil
  then show ?case by (simp add: tickRel_refl)
next
  case (Cons k ks)
  then obtain s1 evs where a: "stepMob env s k = Some (s1, evs)"
    and b: "stepMobsLoop env s1 ks (events @ evs) = Some (s', events')"
    by (auto split: option.splits)
  show ?case
    using tickRel_trans[OF stepMob_tickRel[OF a] Cons.IH[OF b]] .
qed

lemma tickLocked_tickRel:
  assumes "tickLocked env s = Some (s', events, snapshot)"
  shows "tickRel s s'"
proof -
  from assms have "stepMobsLoop env (s\<lparr>tick := tick s + 1\<rparr>) (mob_order env) [] = Some (s', events)"
    by (auto simp add: tickLocked_def stepMobsLocked_def split: option.splits)
  from stepMobsLoop_tickRel[OF this] have a: "tickRel (s\<lparr>tick := tick s + 1\<rparr>) s'" .
  have b: "tickRel s (s\<lparr>tick := tick s + 1\<rparr>)"
    by (simp add: tickRel_def rel_option_refl mobStepOk_refl playerStepOk_refl)
  show ?thesis using tickRel_trans[OF b a] .
qed

lemma tickWorld_Some:
  assumes "tickWorld marshal env s = Some s'"
  shows "\<exists>s1 events snapshot. tickLocked env s = Some (s1, events, snapshot) \<and>
           tickRel s s1 \<and> onlyFrames s1 s'"
proof -
  from assms obtain s1 events snapshot s2 where
    a: "tickLocked env s = Some (s1, events, snapshot)"
    and b: "broadcastEvents marshal s1 events = Some s2"
    and c: "broadcastZone marshal s2 uuid_Nil (zoneID s2) (MobUpdate snapshot) = Some s'"
    by (auto simp add: tickWorld_def split: option.splits)
  have "onlyFrames s1 s'"
    using onlyFrames_trans[OF broadcastEvents_onlyFrames[OF b] broadcastZone_onlyFrames[OF c]] .
  then show ?thesis
    using a tickLocked_tickRel[OF a] by blast
qed

subsection \<open>Places\<close>

lemma placesOk_refl: "placesOk s s"
  by (simp add: placesOk_def rel_option_refl mobStepOk_refl playerStepOk_refl)

lemma placesOk_trans:
  assumes "placesOk s s'" and "placesOk s' s''"
  shows "placesOk s s''"
proof -
  have w: "worldMap s' = worldMap s" using assms(1) by (simp add: placesOk_def)
  have m: "rel_option (mobStepOk (worldMap s)) (mobs s k) (mobs s'' k)" for k
    using assms w
    by (auto simp add: placesOk_def intro: rel_option_trans[OF mobStepOk_trans])
  have p: "rel_option (playerStepOk (worldMap s)) (players s t) (players s'' t)" for t
    using assms w
    by (auto simp add: placesOk_def intro: rel_option_trans[OF playerStepOk_trans])
  show ?thesis
    unfolding placesOk_def using assms m p by (simp add: placesOk_def)
qed

lemma tickRel_placesOk: "tickRel s s' \<Longrightarrow> placesOk s s'"
  by (simp add: placesOk_def tickRel_fields(1)) (simp add: tickRel_def)

lemma onlyFrames_placesOk: "onlyFrames s s' \<Longrightarrow> placesOk s s'"
  by (simp add: placesOk_def onlyFrames_fields rel_option_refl mobStepOk_refl playerStepOk_refl)

lemma Hypot_nonneg: "0 \<le> Hypot a b"
  by (simp add: Hypot_def)

lemma distance_self: "distance a b a b = 0"
  by (simp add: distance_def Hypot_def)

lemma patrolInv_placesOk:
  assumes "patrolInv s" and "placesOk s s'"
  shows "patrolInv s'"
  unfolding patrolInv_def
proof (intro allI impI)
  fix k mob'
  assume k: "mobs s' k = Some mob'"
  from assms(2) have "rel_option (mobStepOk (worldMap s)) (mobs s k) (mobs s' k)"
    by (simp add: placesOk_def)
  with k obtain mob where mob: "mobs s k = Some mob" and ok: "mobStepOk (worldMap s) mob mob'"
    by (cases "mobs s k") auto
  from assms(1) mob have inv: "distance (SpawnX mob) (SpawnY mob) (mX (State mob)) (mY (State mob))
          \<le> mPatrolRadius (State mob)"
    by (simp add: patrolInv_def)
  have "0 \<le> distance (SpawnX mob) (SpawnY mob) (mX (State mob)) (mY (State mob))"
    by (simp add: distance_def Hypot_nonneg)
  with inv have nn: "0 \<le> mPatrolRadius (State mob)" by simp
  from ok inv nn show "distance (SpawnX mob') (SpawnY mob') (mX (State mob')) (mY (State mob'))
          \<le> mPatrolRadius (State mob')"
    unfolding mobStepOk_def withinPatrol_def by (auto simp add: distance_self)
qed

lemma walkInv_placesOk:
  assumes "gridOk (worldMap s)" and "walkInv s" and "spawnsOk s" and "placesOk s s'"
  shows "walkInv s' \<and> spawnsOk s'"
proof -
  have w: "worldMap s' = worldMap s" using assms(4) by (simp add: placesOk_def)
  have mobs_ok: "walkable_radius (worldMap s) (mX (State mob')) (mY (State mob')) 0.2 \<and>
                 walkable_radius (worldMap s) (SpawnX mob') (SpawnY mob') 0.2"
    if k: "mobs s' k = Some mob'" for k mob'
  proof -
    from assms(4) have "rel_option (mobStepOk (worldMap s)) (mobs s k) (mobs s' k)"
      by (simp add: placesOk_def)
    with k obtain mob where mob: "mobs s k = Some mob" and ok: "mobStepOk (worldMap s) mob mob'"
      by (cases "mobs s k") auto
    from assms(2) mob have a: "walkable_radius (worldMap s) (mX (State mob)) (mY (State mob)) 0.2"
      by (simp add: walkInv_def)
    from assms(3) mob have b: "walkable_radius (worldMap s) (SpawnX mob) (SpawnY mob) 0.2"
      by (simp add: spawnsOk_def)
    from ok a b show ?thesis
      unfolding mobStepOk_def by (auto simp add: isWalkableWithRadius_gridOk[OF assms(1)])
  qed
  have players_ok: "walkable_radius (worldMap s) (pX p') (pY p') 0.2"
    if t: "players s' t = Some p'" for t p'
  proof -
    from assms(4) have "rel_option (playerStepOk (worldMap s)) (players s t) (players s' t)"
      by (simp add: placesOk_def)
    with t obtain p where p: "players s t = Some p" and ok: "playerStepOk (worldMap s) p p'"
      by (cases "players s t") auto
    from assms(2) p have a: "walkable_radius (worldMap s) (pX p) (pY p) 0.2"
      by (simp add: walkInv_def)
    from assms(3) have b: "walkable_radius (worldMap s) (spX (Spawn (worldMap s))) (spY (Spawn (worldMap s))) 0.2"
      by (simp add: spawnsOk_def)
    from ok a b show ?thesis
      unfolding playerStepOk_def by auto
  qed
  from assms(3) have sp: "walkable_radius (worldMap s) (spX (Spawn (worldMap s))) (spY (Spawn (worldMap s))) 0.2"
    by (simp add: spawnsOk_def)
  show ?thesis
    unfolding walkInv_def spawnsOk_def w using mobs_ok players_ok sp by blast
qed

lemma slide_ok:
  assumes "gridOk m" and "slide m pr stepX stepY = Some pr'"
  shows "(pX pr' = pX pr \<and> pY pr' = pY pr) \<or> walkable_radius m (pX pr') (pY pr') 0.2"
  using assms(2) unfolding slide_gridOk[OF assms(1)]
  by (auto split: if_splits)

lemma levelUp_pos: "pX (levelUp p) = pX p \<and> pY (levelUp p) = pY p"
proof (induction p rule: levelUp.induct)
  case (1 pr)
  show ?case
  proof (cases "pExperience pr \<ge> pLevel pr * 100")
    case True
    then show ?thesis
      using 1 by (subst (1 2) levelUp.simps) simp
  next
    case False
    then show ?thesis by (simp add: levelUp_idle)
  qed
qed

lemma grantKill_ok: "playerStepOk m p (grantKill p)"
  using levelUp_pos[of "p\<lparr>pExperience := pExperience p + 25\<rparr>"]
  by (simp add: playerStepOk_def grantKill_def)

lemma resolveKill_tickRel: "tickRel s (resolveKill s cid targetID)"
proof (cases "mobs s targetID")
  case None
  then show ?thesis by (simp add: resolveKill_def tickRel_refl)
next
  case (Some mob)
  show ?thesis
  proof (cases "mHP (State mob) \<le> 0 \<and> mAlive (State mob)")
    case False
    then show ?thesis using Some by (auto simp add: resolveKill_def tickRel_refl)
  next
    case True
    have ok: "mobStepOk (worldMap s) mob
                (mob\<lparr>State := (State mob)\<lparr>mAlive := False, mHP := 0\<rparr>,
                     RespawnCounter := mobRespawnTicks\<rparr>)"
      by (simp add: mobStepOk_def)
    show ?thesis
    proof (cases "players s cid")
      case None
      then have "resolveKill s cid targetID =
          s\<lparr>mobs := (mobs s)(targetID \<mapsto> mob\<lparr>State := (State mob)\<lparr>mAlive := False, mHP := 0\<rparr>,
                     RespawnCounter := mobRespawnTicks\<rparr>)\<rparr>"
        using Some True by (simp add: resolveKill_def)
      then show ?thesis using tickRel_mob[OF Some ok] by simp
    next
      case p: (Some pr)
      then have "resolveKill s cid targetID =
          s\<lparr>players := (players s)(cid \<mapsto> grantKill pr),
            mobs := (mobs s)(targetID \<mapsto> mob\<lparr>State := (State mob)\<lparr>mAlive := False, mHP := 0\<rparr>,
                     RespawnCounter := mobRespawnTicks\<rparr>)\<rparr>"
        using Some True by (simp add: resolveKill_def)
      then show ?thesis using tickRel_mob_player[OF Some ok p grantKill_ok] by simp
    qed
  qed
qed

subsection \<open>Handlers\<close>

lemma patrolInv_mobs: "mobs s' = mobs s \<Longrightarrow> patrolInv s' = patrolInv s"
  by (simp add: patrolInv_def)

lemma Move_Some:
  assumes "Move marshal s c dx dy = Some s'"
  shows "s' = s \<or>
         (\<exists>pr pr' stepX stepY s1 s2.
            players s (CharacterID (heap s c)) = Some pr \<and>
            slide (worldMap s) pr stepX stepY = Some pr' \<and>
            s1 = s\<lparr>players := (players s)(CharacterID (heap s c) \<mapsto> pr')\<rparr> \<and>
            onlyFrames s1 s2 \<and>
            (s' = s2 \<or> (\<exists>call. s' = s2\<lparr>persisted := persisted s2 @ [call]\<rparr>)))"
proof (cases "\<bar>dx\<bar> < 0.000001 \<and> \<bar>dy\<bar> < 0.000001")
  case True
  with assms show ?thesis by (simp add: Move_def)
next
  case False
  obtain stepX stepY where st: "moveStep dx dy = (stepX, stepY)"
    by (cases "moveStep dx dy")
  show ?thesis
  proof (cases "players s (CharacterID (heap s c))")
    case None
    with assms False st show ?thesis by (auto simp add: Move_def Let_def)
  next
    case (Some pr)
    with assms False st obtain pr' s2 where
      sl: "slide (worldMap s) pr stepX stepY = Some pr'"
      and bc: "broadcastZone marshal (s\<lparr>players := (players s)(CharacterID (heap s c) \<mapsto> pr')\<rparr>)
                 uuid_Nil (pZoneID pr') (PlayerMoved (CharacterID (heap s c)) (pX pr') (pY pr')) = Some s2"
      and s': "s' = (if has_updater s2
                     then s2\<lparr>persisted := persisted s2 @
                            [(AccountID (heap s2 c), CharacterID (heap s c), pX pr', pY pr', pZoneID pr')]\<rparr>
                     else s2)"
      by (auto simp add: Move_def Let_def split: option.splits)
    have "onlyFrames (s\<lparr>players := (players s)(CharacterID (heap s c) \<mapsto> pr')\<rparr>) s2"
      using broadcastZone_onlyFrames[OF bc] .
    moreover have "s' = s2 \<or> (\<exists>call. s' = s2\<lparr>persisted := persisted s2 @ [call]\<rparr>)"
    proof (cases "has_updater s2")
      case True
      with s' have "s' = s2\<lparr>persisted := persisted s2 @
          [(AccountID (heap s2 c), CharacterID (heap s c), pX pr', pY pr', pZoneID pr')]\<rparr>"
        by simp
      then show ?thesis by blast
    next
      case False
      with s' show ?thesis by simp
    qed
    ultimately show ?thesis
      using Some sl by blast
  qed
qed

lemma Move_fields:
  assumes "Move marshal s c dx dy = Some s'"
  shows "mobs s' = mobs s" "worldMap s' = worldMap s" "clients s' = clients s"
    "closed (Send (heap s' x)) = closed (Send (heap s x))"
proof -
  from Move_Some[OF assms] consider "s' = s"
    | pr' s2 call where "onlyFrames (s\<lparr>players := (players s)(CharacterID (heap s c) \<mapsto> pr')\<rparr>) s2"
        "s' = s2 \<or> s' = s2\<lparr>persisted := persisted s2 @ [call]\<rparr>"
    by blast
  then have "mobs s' = mobs s \<and> worldMap s' = worldMap s \<and> clients s' = clients s \<and>
    closed (Send (heap s' x)) = closed (Send (heap s x))"
  proof cases
    case 1
    then show ?thesis by simp
  next
    case 2
    from onlyFrames_fields[OF 2(1)] 2(2) show ?thesis by auto
  qed
  then show "mobs s' = mobs s" "worldMap s' = worldMap s" "clients s' = clients s"
    "closed (Send (heap s' x)) = closed (Send (heap s x))"
    by simp_all
qed

lemma Move_players:
  assumes "Move marshal s c dx dy = Some s'" and "gridOk (worldMap s)"
    and "players s' t = Some p'"
  shows "\<exists>p. players s t = Some p \<and>
           ((pX p' = pX p \<and> pY p' = pY p) \<or> walkable_radius (worldMap s) (pX p') (pY p') 0.2)"
proof -
  from Move_Some[OF assms(1)] consider "s' = s"
    | pr pr' stepX stepY s2 call where "players s (CharacterID (heap s c)) = Some pr"
        "slide (worldMap s) pr stepX stepY = Some pr'"
        "onlyFrames (s\<lparr>players := (players s)(CharacterID (heap s c) \<mapsto> pr')\<rparr>) s2"
        "s' = s2 \<or> s' = s2\<lparr>persisted := persisted s2 @ [call]\<rparr>"
    by blast
  then show ?thesis
  proof cases
    case 1
    with assms(3) show ?thesis by simp
  next
    case 2
    have pl: "players s' = (players s)(CharacterID (heap s c) \<mapsto> pr')"
      using onlyFrames_fields(1)[OF 2(3)] 2(4) by auto
    show ?thesis
    proof (cases "t = CharacterID (heap s c)")
      case True
      with pl assms(3) have "p' = pr'" by simp
      with slide_ok[OF assms(2) 2(2)] 2(1) True show ?thesis by simp
    next
      case False
      with pl assms(3) show ?thesis by simp
    qed
  qed
qed

lemma close_Send_fields:
  "close_Send s c = Some s' \<Longrightarrow>
   mobs s' = mobs s \<and> worldMap s' = worldMap s \<and> clients s' = clients s \<and> players s' = players s \<and>
   (\<forall>x. x \<noteq> c \<longrightarrow> heap s' x = heap s x)"
  by (auto simp add: close_Send_def split: if_splits)

lemma close_Conn_fields:
  "mobs (close_Conn s c) = mobs s \<and> worldMap (close_Conn s c) = worldMap s \<and>
   clients (close_Conn s c) = clients s \<and> players (close_Conn s c) = players s \<and>
   (\<forall>x. x \<noteq> c \<longrightarrow> heap (close_Conn s c) x = heap s x)"
  by (auto simp add: close_Conn_def split: option.splits)

lemma UnregisterClient_fields:
  assumes "UnregisterClient marshal s c = Some s'"
  shows "mobs s' = mobs s" "worldMap s' = worldMap s" "clients s' = clients s - {c}"
    "x \<noteq> c \<Longrightarrow> closed (Send (heap s' x)) = closed (Send (heap s x))"
    "players s' = (players s)(CharacterID (heap s c) := None)"
proof -
  let ?cid = "CharacterID (heap s c)"
  let ?s1 = "s\<lparr>clients := clients s - {c}\<rparr>"
  have "mobs s' = mobs s \<and> worldMap s' = worldMap s \<and> clients s' = clients s - {c} \<and>
     (x \<noteq> c \<longrightarrow> closed (Send (heap s' x)) = closed (Send (heap s x))) \<and>
     players s' = (players s)(?cid := None)"
  proof (cases "players s ?cid")
    case None
    with assms obtain s2 where a: "close_Send ?s1 c = Some s2" and b: "s' = close_Conn s2 c"
      by (auto simp add: UnregisterClient_def Let_def split: option.splits)
    have "(players s)(?cid := None) = players s"
      using None by (simp add: fun_upd_idem)
    then show ?thesis
      using close_Send_fields[OF a] close_Conn_fields[of s2 c] b by auto
  next
    case (Some pr)
    let ?s2 = "?s1\<lparr>players := (players ?s1)(?cid := None)\<rparr>"
    from assms Some obtain s3 s4 s6 where
      a: "broadcastZone marshal ?s2 ?cid (pZoneID pr) (PlayerLeft ?cid) = Some s3"
      and b: "broadcastZone marshal s3 uuid_Nil (pZoneID pr) (Broadcast (pName pr @ '' left the world'')) = Some s4"
      and c: "close_Send (if has_updater s4
                                  then s4\<lparr>persisted := persisted s4 @
                                         [(AccountID (heap s4 c), ?cid, pX pr, pY pr, pZoneID pr)]\<rparr>
                                  else s4) c = Some s6"
      and d: "s' = close_Conn s6 c"
      by (auto simp add: UnregisterClient_def Let_def split: option.splits)
    have fr: "onlyFrames ?s2 s4"
      using onlyFrames_trans[OF broadcastZone_onlyFrames[OF a] broadcastZone_onlyFrames[OF b]] .
    show ?thesis
      using onlyFrames_fields[OF fr] close_Send_fields[OF c] close_Conn_fields[of s6 c] d
      by (cases "has_updater s4") auto
  qed
  then show "mobs s' = mobs s" "worldMap s' = worldMap s" "clients s' = clients s - {c}"
    "x \<noteq> c \<Longrightarrow> closed (Send (heap s' x)) = closed (Send (heap s x))"
    "players s' = (players s)(CharacterID (heap s c) := None)"
    by simp_all
qed

lemma Attack_placesOk:
  assumes "Attack marshal s c targetID = Some s'"
  shows "placesOk s s' \<and> clients s' = clients s \<and>
         (\<forall>x. closed (Send (heap s' x)) = closed (Send (heap s x)))"
proof -
  let ?cid = "CharacterID (heap s c)"
  have fr: "onlyFrames a b \<Longrightarrow> placesOk a b \<and> clients b = clients a \<and>
         (\<forall>x. closed (Send (heap b x)) = closed (Send (heap a x)))" for a b :: "'a Service"
    by (simp add: onlyFrames_placesOk onlyFrames_fields)
  have tr: "tickRel a b \<Longrightarrow> placesOk a b \<and> clients b = clients a \<and>
         (\<forall>x. closed (Send (heap b x)) = closed (Send (heap a x)))" for a b :: "'a Service"
    by (simp add: tickRel_placesOk tickRel_fields)
  have chain: "placesOk a b \<and> clients b = clients a \<and>
         (\<forall>x. closed (Send (heap b x)) = closed (Send (heap a x))) \<Longrightarrow>
       placesOk b d \<and> clients d = clients b \<and>
         (\<forall>x. closed (Send (heap d x)) = closed (Send (heap b x))) \<Longrightarrow>
       placesOk a d \<and> clients d = clients a \<and>
         (\<forall>x. closed (Send (heap d x)) = closed (Send (heap a x)))" for a b d :: "'a Service"
    using placesOk_trans[of a b d] by simp
  show ?thesis
  proof (cases "players s ?cid")
    case None
    with assms have "s' = s" by (simp add: Attack_def Let_def)
    then show ?thesis by (simp add: placesOk_refl)
  next
    case (Some pr)
    show ?thesis
    proof (cases "\<exists>mob. mobs s targetID = Some mob \<and> mAlive (State mob) \<and>
              \<not> distance (pX pr) (pY pr) (mX (State mob)) (mY (State mob)) > playerAttackRange")
      case False
      with assms Some have "\<exists>p. nonBlockingSendJSON marshal s c p = Some s'"
        by (auto simp add: Attack_def Let_def split: option.splits if_splits)
      then show ?thesis
        using fr nonBlockingSendJSON_onlyFrames by blast
    next
      case True
      then obtain mob where mob: "mobs s targetID = Some mob" "mAlive (State mob)"
        "\<not> distance (pX pr) (pY pr) (mX (State mob)) (mY (State mob)) > playerAttackRange"
        by blast
      define dmg where "dmg = basePlayerDamage + (pLevel pr - 1) * 3"
      define s1 where "s1 = s\<lparr>mobs := (mobs s)(targetID \<mapsto>
                                mob\<lparr>State := (State mob)\<lparr>mHP := mHP (State mob) - dmg\<rparr>\<rparr>)\<rparr>"
      have r1: "tickRel s s1"
        unfolding s1_def by (rule tickRel_mob[OF mob(1)]) (simp add: mobStepOk_def)
      from assms Some mob obtain s2 where
        bc: "broadcastZone marshal s1 uuid_Nil (pZoneID pr)
               (Combat (UuidString ?cid) (MobId targetID) dmg) = Some s2"
        and rest: "(let s3 = resolveKill s2 ?cid targetID;
                              playerSnapshot = (case players s3 ?cid of
                                                  None \<Rightarrow> pr
                                                | Some p \<Rightarrow> p)
                          in if mobIsDead s3 targetID then
                               (case broadcastZone marshal s3 uuid_Nil (pZoneID pr) (MobDied targetID) of
                                  None \<Rightarrow> None
                                | Some s4 \<Rightarrow>
                                    (case broadcastZone marshal s4 uuid_Nil (pZoneID pr)
                                            (Broadcast (pName playerSnapshot @ '' defeated '' @
                                               targetID)) of
                                       None \<Rightarrow> None
                                     | Some s5 \<Rightarrow>
                                         nonBlockingSendJSON marshal s5 c
                                           (PlayerUpdate playerSnapshot)))
                             else Some s3) = Some s'"
        by (auto simp add: Attack_def Let_def dmg_def s1_def split: option.splits)
      define s3 where "s3 = resolveKill s2 ?cid targetID"
      have r2: "onlyFrames s1 s2" using broadcastZone_onlyFrames[OF bc] .
      have r3: "tickRel s2 s3" unfolding s3_def by (rule resolveKill_tickRel)
      have r4: "onlyFrames s3 s'"
      proof (cases "mobIsDead s3 targetID")
        case False
        with rest have "s' = s3" by (simp add: Let_def s3_def)
        then show ?thesis by (simp add: onlyFrames_refl)
      next
        case True
        with rest obtain s4 s5 p1 p2 where
          "broadcastZone marshal s3 uuid_Nil (pZoneID pr) (MobDied targetID) = Some s4"
          "broadcastZone marshal s4 uuid_Nil (pZoneID pr) p1 = Some s5"
          "nonBlockingSendJSON marshal s5 c p2 = Some s'"
          by (auto simp add: Let_def s3_def[symmetric] split: option.splits)
        then show ?thesis
          using onlyFrames_trans broadcastZone_onlyFrames nonBlockingSendJSON_onlyFrames
          by blast
      qed
      show ?thesis
        using chain[OF tr[OF r1] chain[OF fr[OF r2] chain[OF tr[OF r3] fr[OF r4]]]] .
    qed
  qed
qed

subsection \<open>Reachable states\<close>

lemma parseRow_length: "parseRow r = Some row \<Longrightarrow> length row = length r"
  by (induction r arbitrary: row) (auto split: option.splits if_splits)

lemma parseRows_shape:
  "parseRows w rows = Inr tiles \<Longrightarrow>
   length tiles = length rows \<and> list_all (\<lambda>row. length row = nat w) tiles"
proof (induction rows arbitrary: tiles)
  case Nil
  then show ?case by simp
next
  case (Cons r rows)
  from Cons.prems obtain row rest where w: "int (length r) = w"
    and r: "parseRow r = Some row" and rs: "parseRows w rows = Inr rest"
    and t: "tiles = row # rest"
    by (auto split: if_splits option.splits sum.splits)
  from parseRow_length[OF r] w have "length row = nat w" by auto
  with Cons.IH[OF rs] t show ?case by simp
qed

lemma loadWorldMap_ok:
  assumes "loadWorldMap file zone = Inr (wm, ns, ms)"
  shows "gridOk wm \<and> (\<forall>m \<in> set ms. 0 < mPatrolRadius m)"
proof -
  from assms obtain data tiles where d: "file = Some data"
    and h: "int (length (jRows data)) = jHeight data"
    and p: "parseRows (jWidth data) (jRows data) = Inr tiles"
    and wm: "wm = \<lparr>Width = jWidth data, Height = jHeight data, Spawn = jSpawn data, Tiles = tiles\<rparr>"
    and ms: "ms = map (mobOfJSON zone) (filter (\<lambda>m. mjID m \<noteq> []) (jMobs data))"
    by (auto simp add: loadWorldMap_def split: option.splits if_splits sum.splits)
  from parseRows_shape[OF p] h have "gridOk wm"
    by (auto simp add: gridOk_def wm)
  moreover have "\<forall>m \<in> set ms. 0 < mPatrolRadius m"
    by (auto simp add: ms mobOfJSON_def Let_def)
  ultimately show ?thesis by blast
qed

lemma fallbackWorld_ok:
  assumes "fallbackWorld zone = (wm, ns, ms)"
  shows "gridOk wm \<and> (\<forall>m \<in> set ms. 0 < mPatrolRadius m)"
  using assms by (auto simp add: fallbackWorld_def gridOk_def list_all_iff)

lemma mobTable_inv:
  assumes "\<forall>m \<in> set ms. P (newMobRuntime m)" and "\<forall>k mob. tbl k = Some mob \<longrightarrow> P mob"
  shows "\<forall>k mob. mobTable ms tbl k = Some mob \<longrightarrow> P mob"
  using assms
proof (induction ms arbitrary: tbl)
  case Nil
  then show ?case by simp
next
  case (Cons m ms)
  have a: "\<forall>k mob. (tbl(mID m \<mapsto> newMobRuntime m)) k = Some mob \<longrightarrow> P mob"
    using Cons.prems by auto
  have b: "\<forall>m \<in> set ms. P (newMobRuntime m)"
    using Cons.prems(1) by simp
  show ?case
    unfolding mobTable.simps by (rule Cons.IH[OF b a])
qed

lemma NewService_ok:
  "gridOk (worldMap (NewService updater zone file)) \<and> chansOpen (NewService updater zone file) \<and>
   patrolInv (NewService updater zone file)"
proof -
  obtain wm ns ms where l: "(case loadWorldMap file zone of
                            Inl err \<Rightarrow> fallbackWorld zone
                          | Inr loaded \<Rightarrow> loaded) = (wm, ns, ms)"
    by (metis prod_cases3)
  have ok: "gridOk wm \<and> (\<forall>m \<in> set ms. 0 < mPatrolRadius m)"
  proof (cases "loadWorldMap file zone")
    case (Inl e)
    with l show ?thesis using fallbackWorld_ok by simp
  next
    case (Inr loaded)
    with l show ?thesis using loadWorldMap_ok by simp
  qed
  have w: "worldMap (NewService updater zone file) = wm"
    and m: "mobs (NewService updater zone file) = mobTable ms Map.empty"
    and c: "clients (NewService updater zone file) = {}"
    using l by (simp_all add: NewService_def)
  have "\<forall>k mob. mobTable ms Map.empty k = Some mob \<longrightarrow>
          distance (SpawnX mob) (SpawnY mob) (mX (State mob)) (mY (State mob))
            \<le> mPatrolRadius (State mob)"
  proof (rule mobTable_inv)
    show "\<forall>m\<in>set ms. distance (SpawnX (newMobRuntime m)) (SpawnY (newMobRuntime m))
            (mX (State (newMobRuntime m))) (mY (State (newMobRuntime m)))
            \<le> mPatrolRadius (State (newMobRuntime m))"
      using ok by (auto simp add: newMobRuntime_def distance_self less_imp_le)
  qed simp
  then show ?thesis
    using ok by (simp add: w m c chansOpen_def patrolInv_def)
qed

text \<open>In every reachable state the grid is as the loader builds it, the queues of the
  registered sessions are open, and every mob is within its patrol radius.\<close>

lemma reachable_inv:
  "reachable marshal s \<Longrightarrow> gridOk (worldMap s) \<and> chansOpen s \<and> patrolInv s"
proof (induction rule: reachable.induct)
  case (init updater zone doc)
  show ?case by (rule NewService_ok)
next
  case (register s c conn accountID)
  then show ?case
    by (auto simp add: RegisterClient_def chansOpen_def patrolInv_def)
next
  case (unregister s c s')
  from UnregisterClient_fields[OF unregister.hyps(3)] unregister.IH
  show ?case
    by (auto simp add: chansOpen_def patrolInv_def)
next
  case (join s c playerKeys mobKeys char s')
  from Join_Some_position[OF join.hyps(3)] obtain x y
    where xy: "joinPosition (worldMap s) (chPosX char) (chPosY char) = Some (x, y)" by blast
  from onlyFrames_fields[OF Join_Some[OF join.hyps(3) xy]] join.IH
  show ?case
    by (auto simp add: chansOpen_def patrolInv_def)
next
  case (move s c dx dy s')
  from Move_fields[OF move.hyps(3)] move.IH
  show ?case
    by (auto simp add: chansOpen_def patrolInv_def)
next
  case (attack s c targetID s')
  from Attack_placesOk[OF attack.hyps(3)] attack.IH
  show ?case
    using patrolInv_placesOk[of s s'] by (auto simp add: chansOpen_def placesOk_def)
next
  case (tick s env s')
  from tickWorld_Some[OF tick.hyps(3)] obtain s1 where
    r: "tickRel s s1" and f: "onlyFrames s1 s'" by blast
  have p: "placesOk s s'"
    using placesOk_trans[OF tickRel_placesOk[OF r] onlyFrames_placesOk[OF f]] .
  from tickRel_fields[OF r] onlyFrames_fields[OF f] tick.IH
  have "chansOpen s'" by (auto simp add: chansOpen_def)
  then show ?case
    using p tick.IH patrolInv_placesOk[of s s'] by (auto simp add: placesOk_def)
qed

subsection \<open>Ticks\<close>

lemma moveMobTowardsLocked_total [simp]:
  "gridOk m \<Longrightarrow> (moveMobTowardsLocked m mob x y = None) = False"
  by (simp add: moveMobTowardsLocked_def Let_def isWalkableWithRadius_gridOk)

lemma wanderMobLocked_total [simp]:
  "gridOk m \<Longrightarrow> (wanderMobLocked m rf ri mob = None) = False"
  by (simp add: wanderMobLocked_def Let_def isWalkableWithRadius_gridOk)

lemma stepMob_total:
  assumes "gridOk (worldMap s)"
  shows "\<exists>s' evs. stepMob env s k = Some (s', evs)"
proof -
  have "stepMob env s k \<noteq> None"
    using assms
    by (auto simp add: stepMob_def Let_def split: option.splits prod.splits)
  then show ?thesis by auto
qed

lemma stepMobsLoop_total:
  "gridOk (worldMap s) \<Longrightarrow> \<exists>s' evs'. stepMobsLoop env s ks evs = Some (s', evs')"
proof (induction ks arbitrary: s evs)
  case Nil
  then show ?case by simp
next
  case (Cons k ks)
  from stepMob_total[OF Cons.prems] obtain s1 e1 where a: "stepMob env s k = Some (s1, e1)"
    by blast
  have "gridOk (worldMap s1)"
    using tickRel_fields(1)[OF stepMob_tickRel[OF a]] Cons.prems by simp
  from Cons.IH[OF this] show ?case using a by simp
qed

lemma tickLocked_total:
  assumes "gridOk (worldMap s)"
  shows "\<exists>s' events snapshot. tickLocked env s = Some (s', events, snapshot)"
proof -
  have "gridOk (worldMap (s\<lparr>tick := tick s + 1\<rparr>))" using assms by simp
  from stepMobsLoop_total[OF this, of env "mob_order env" "[]"] obtain s' evs'
    where "stepMobsLoop env (s\<lparr>tick := tick s + 1\<rparr>) (mob_order env) [] = Some (s', evs')"
    by blast
  then show ?thesis
    by (simp add: tickLocked_def stepMobsLocked_def)
qed

lemma tickWorld_total:
  assumes "gridOk (worldMap s)" and "chansOpen s"
  shows "\<exists>s'. tickWorld marshal env s = Some s'"
proof -
  from tickLocked_total[OF assms(1)] obtain s1 events snapshot
    where a: "tickLocked env s = Some (s1, events, snapshot)" by blast
  have o1: "chansOpen s1"
    using tickRel_fields[OF tickLocked_tickRel[OF a]] assms(2) by (simp add: chansOpen_def)
  from broadcastEvents_total[OF o1] obtain s2
    where b: "broadcastEvents marshal s1 events = Some s2" by blast
  have o2: "chansOpen s2"
    using onlyFrames_chansOpen[OF broadcastEvents_onlyFrames[OF b]] o1 by simp
  from broadcastZone_total[OF o2] obtain s'
    where c: "broadcastZone marshal s2 uuid_Nil (zoneID s2) (MobUpdate snapshot) = Some s'" by blast
  show ?thesis using a b c by (simp add: tickWorld_def)
qed

lemma Move_total:
  assumes "gridOk (worldMap s)" and "chansOpen s"
  shows "\<exists>s'. Move marshal s c dx dy = Some s'"
proof (cases "\<bar>dx\<bar> < 0.000001 \<and> \<bar>dy\<bar> < 0.000001")
  case True
  then show ?thesis by (simp add: Move_def)
next
  case False
  obtain stepX stepY where st: "moveStep dx dy = (stepX, stepY)"
    by (cases "moveStep dx dy")
  show ?thesis
  proof (cases "players s (CharacterID (heap s c))")
    case None
    with False st show ?thesis by (auto simp add: Move_def Let_def)
  next
    case (Some pr)
    from slide_gridOk[OF assms(1)] obtain pr' where
      sl: "slide (worldMap s) pr stepX stepY = Some pr'" by blast
    have "chansOpen (s\<lparr>players := (players s)(CharacterID (heap s c) \<mapsto> pr')\<rparr>)"
      using assms(2) by (simp add: chansOpen_def)
    from broadcastZone_total[OF this] obtain s2 where
      "broadcastZone marshal (s\<lparr>players := (players s)(CharacterID (heap s c) \<mapsto> pr')\<rparr>)
         uuid_Nil (pZoneID pr') (PlayerMoved (CharacterID (heap s c)) (pX pr') (pY pr')) = Some s2"
      by blast
    with False st Some sl show ?thesis by (auto simp add: Move_def Let_def)
  qed
qed

lemma stepMob_other:
  assumes "stepMob env s k = Some (s', evs)" and "k' \<noteq> k"
  shows "mobs s' k' = mobs s k'"
  using assms
  by (auto simp add: stepMob_def Let_def split: option.splits prod.splits if_splits)

lemma stepMobsLoop_other:
  "stepMobsLoop env s ks evs = Some (s', evs') \<Longrightarrow> k \<notin> set ks \<Longrightarrow> mobs s' k = mobs s k"
proof (induction ks arbitrary: s evs)
  case Nil
  then show ?case by simp
next
  case (Cons h ks)
  then obtain s1 e1 where a: "stepMob env s h = Some (s1, e1)"
    and b: "stepMobsLoop env s1 ks (evs @ e1) = Some (s', evs')"
    by (auto split: option.splits)
  have "mobs s1 k = mobs s k"
    using stepMob_other[OF a, of k] Cons.prems(2) by simp
  moreover have "mobs s' k = mobs s1 k"
    using Cons.IH[OF b] Cons.prems(2) by simp
  ultimately show ?case by simp
qed

lemma stepMobsLoop_events:
  "stepMobsLoop env s ks evs = Some (s', evs') \<Longrightarrow> set evs \<subseteq> set evs'"
proof (induction ks arbitrary: s evs)
  case Nil
  then show ?case by simp
next
  case (Cons h ks)
  then obtain s1 e1 where a: "stepMob env s h = Some (s1, e1)"
    and b: "stepMobsLoop env s1 ks (evs @ e1) = Some (s', evs')"
    by (auto split: option.splits)
  from Cons.IH[OF b] show ?case by simp
qed

text \<open>A key that the loop visits once: its mob is stepped once, from the value it had
  before the loop, and the events of that step are among the events of the loop.\<close>

lemma stepMobsLoop_once:
  fixes s :: "'f Service"
  shows "stepMobsLoop env s ks evs = Some (s', evs') \<Longrightarrow> distinct ks \<Longrightarrow> k \<in> set ks \<Longrightarrow>
   \<exists>(s0 :: 'f Service) s1 e1. stepMob env s0 k = Some (s1, e1) \<and> mobs s0 k = mobs s k \<and>
     mobs s' k = mobs s1 k \<and> set e1 \<subseteq> set evs'"
proof (induction ks arbitrary: s evs)
  case Nil
  then show ?case by simp
next
  case (Cons h ks)
  then obtain s1 e1 where a: "stepMob env s h = Some (s1, e1)"
    and b: "stepMobsLoop env s1 ks (evs @ e1) = Some (s', evs')"
    by (auto split: option.splits)
  show ?case
  proof (cases "h = k")
    case True
    with Cons.prems(2) have "k \<notin> set ks" by simp
    from stepMobsLoop_other[OF b this] have "mobs s' k = mobs s1 k" .
    moreover have "set e1 \<subseteq> set evs'"
      using stepMobsLoop_events[OF b] by simp
    ultimately show ?thesis
      using a True by blast
  next
    case False
    with Cons.prems have d: "distinct ks" and m: "k \<in> set ks" by simp_all
    from Cons.IH[OF b d m] obtain s0 :: "'f Service" and s2 e2 where
      "stepMob env s0 k = Some (s2, e2)" "mobs s0 k = mobs s1 k" "mobs s' k = mobs s2 k"
      "set e2 \<subseteq> set evs'"
      by blast
    moreover have "mobs s1 k = mobs s k"
      using stepMob_other[OF a, of k] False by simp
    ultimately show ?thesis by metis
  qed
qed

text \<open>The step of a dead mob.\<close>

lemma stepMob_dead_waits:
  assumes "mobs s k = Some mob" and "\<not> mAlive (State mob)" and "RespawnCounter mob > 1"
  shows "stepMob env s k =
    Some (s\<lparr>mobs := (mobs s)(k \<mapsto> mob\<lparr>RespawnCounter := RespawnCounter mob - 1\<rparr>)\<rparr>, [])"
  using assms by (simp add: stepMob_def Let_def)

lemma stepMob_dead_revives:
  assumes "mobs s k = Some mob" and "\<not> mAlive (State mob)" and "RespawnCounter mob = 1"
  shows "stepMob env s k =
    Some (s\<lparr>mobs := (mobs s)(k \<mapsto>
              mob\<lparr>RespawnCounter := 0,
                  State := (State mob)\<lparr>mAlive := True, mHP := mMaxHP (State mob),
                                        mX := SpawnX mob, mY := SpawnY mob\<rparr>\<rparr>)\<rparr>,
          [(mZoneID (State mob), Broadcast (mName (State mob) @ '' has respawned''))])"
  using assms by (simp add: stepMob_def Let_def)

lemma stepMob_dead_zero:
  assumes "mobs s k = Some mob" and "\<not> mAlive (State mob)" and "RespawnCounter mob = 0"
  shows "stepMob env s k =
    Some (s\<lparr>mobs := (mobs s)(k \<mapsto>
              mob\<lparr>State := (State mob)\<lparr>mAlive := True, mHP := mMaxHP (State mob),
                                        mX := SpawnX mob, mY := SpawnY mob\<rparr>\<rparr>)\<rparr>,
          [(mZoneID (State mob), Broadcast (mName (State mob) @ '' has respawned''))])"
  using assms by (simp add: stepMob_def Let_def)

lemma stepMob_dead_stuck:
  assumes "mobs s k = Some mob" and "\<not> mAlive (State mob)" and "RespawnCounter mob < 0"
  shows "stepMob env s k = Some (s\<lparr>mobs := (mobs s)(k \<mapsto> mob)\<rparr>, [])"
  using assms by (simp add: stepMob_def Let_def)

subsection \<open>Respawn\<close>

lemma stepMob_tick:
  "stepMob env s k = Some (s', evs) \<Longrightarrow> tick s' = tick s"
  by (auto simp add: stepMob_def Let_def split: option.splits prod.splits if_splits)

lemma stepMobsLoop_tick:
  "stepMobsLoop env s ks evs = Some (s', evs') \<Longrightarrow> tick s' = tick s"
proof (induction ks arbitrary: s evs)
  case Nil
  then show ?case by simp
next
  case (Cons h ks)
  then obtain s1 e1 where a: "stepMob env s h = Some (s1, e1)"
    and b: "stepMobsLoop env s1 ks (evs @ e1) = Some (s', evs')"
    by (auto split: option.splits)
  show ?case using stepMob_tick[OF a] Cons.IH[OF b] by simp
qed

lemma placesOk_dom: "placesOk s s' \<Longrightarrow> dom (mobs s') = dom (mobs s)"
proof -
  assume "placesOk s s'"
  then have r: "rel_option (mobStepOk (worldMap s)) (mobs s k) (mobs s' k)" for k
    by (simp add: placesOk_def)
  have "(mobs s' k = None) = (mobs s k = None)" for k
    using r[of k] by (cases "mobs s k"; cases "mobs s' k") simp_all
  then show ?thesis by (auto simp add: dom_def)
qed

text \<open>One tick seen from a dead mob.\<close>

lemma tickWorld_dead:
  fixes s :: "'f Service"
  assumes g: "gridOk (worldMap s)" and o: "chansOpen s"
    and r: "rangeOrder (mobs s) (mob_order env)"
    and m: "mobs s k = Some mob" and d: "\<not> mAlive (State mob)"
  shows "\<exists>s1 evs snap s'.
           tickLocked env s = Some (s1, evs, snap) \<and> tickWorld marshal env s = Some s' \<and>
           gridOk (worldMap s') \<and> chansOpen s' \<and> dom (mobs s') = dom (mobs s) \<and>
           tick s' = tick s + 1 \<and>
           (RespawnCounter mob > 1 \<longrightarrow>
              mobs s' k = Some (mob\<lparr>RespawnCounter := RespawnCounter mob - 1\<rparr>)) \<and>
           (RespawnCounter mob = 1 \<longrightarrow>
              mobs s' k = Some (mob\<lparr>RespawnCounter := 0,
                  State := (State mob)\<lparr>mAlive := True, mHP := mMaxHP (State mob),
                                        mX := SpawnX mob, mY := SpawnY mob\<rparr>\<rparr>) \<and>
              (mZoneID (State mob), Broadcast (mName (State mob) @ '' has respawned''))
                \<in> set evs)"
proof -
  from tickWorld_total[OF g o] obtain s' where tw: "tickWorld marshal env s = Some s'"
    by blast
  from tickWorld_Some[OF tw] obtain s1 evs snap where
    tl: "tickLocked env s = Some (s1, evs, snap)" and tr: "tickRel s s1" and fr: "onlyFrames s1 s'"
    by blast
  have po: "placesOk s s'"
    using placesOk_trans[OF tickRel_placesOk[OF tr] onlyFrames_placesOk[OF fr]] .
  have g': "gridOk (worldMap s')" using po g by (simp add: placesOk_def)
  have o': "chansOpen s'"
    using tickRel_fields[OF tr] onlyFrames_fields[OF fr] o by (auto simp add: chansOpen_def)
  have dm: "dom (mobs s') = dom (mobs s)" using placesOk_dom[OF po] .
  from tl have lp: "stepMobsLoop env (s\<lparr>tick := tick s + 1\<rparr>) (mob_order env) [] = Some (s1, evs)"
    by (auto simp add: tickLocked_def stepMobsLocked_def split: option.splits)
  have tk: "tick s' = tick s + 1"
    using stepMobsLoop_tick[OF lp] onlyFrames_fields(8)[OF fr] by simp
  from r m have dk: "distinct (mob_order env)" and kk: "k \<in> set (mob_order env)"
    by (auto simp add: rangeOrder_def)
  from stepMobsLoop_once[OF lp dk kk] obtain s0 :: "'f Service" and s2 e2 where
    st: "stepMob env s0 k = Some (s2, e2)" and m0: "mobs s0 k = mobs (s\<lparr>tick := tick s + 1\<rparr>) k"
    and m2: "mobs s1 k = mobs s2 k" and ev: "set e2 \<subseteq> set evs"
    by blast
  have m0': "mobs s0 k = Some mob" using m0 m by simp
  have mk: "mobs s' k = mobs s2 k"
    using onlyFrames_fields(2)[OF fr] m2 by simp
  have w: "RespawnCounter mob > 1 \<longrightarrow>
              mobs s' k = Some (mob\<lparr>RespawnCounter := RespawnCounter mob - 1\<rparr>)"
  proof
    assume "RespawnCounter mob > 1"
    from stepMob_dead_waits[OF m0' d this, of env] st mk show
      "mobs s' k = Some (mob\<lparr>RespawnCounter := RespawnCounter mob - 1\<rparr>)"
      by auto
  qed
  have v: "RespawnCounter mob = 1 \<longrightarrow>
              mobs s' k = Some (mob\<lparr>RespawnCounter := 0,
                  State := (State mob)\<lparr>mAlive := True, mHP := mMaxHP (State mob),
                                        mX := SpawnX mob, mY := SpawnY mob\<rparr>\<rparr>) \<and>
              (mZoneID (State mob), Broadcast (mName (State mob) @ '' has respawned''))
                \<in> set evs"
  proof
    assume "RespawnCounter mob = 1"
    from stepMob_dead_revives[OF m0' d this, of env] st mk ev show
      "mobs s' k = Some (mob\<lparr>RespawnCounter := 0,
                  State := (State mob)\<lparr>mAlive := True, mHP := mMaxHP (State mob),
                                        mX := SpawnX mob, mY := SpawnY mob\<rparr>\<rparr>) \<and>
              (mZoneID (State mob), Broadcast (mName (State mob) @ '' has respawned''))
                \<in> set evs"
      by auto
  qed
  show ?thesis
    using tl tw g' o' dm tk w v by blast
qed

lemma runTicks_append:
  "runTicks marshal (xs @ ys) s =
     (case runTicks marshal xs s of None \<Rightarrow> None | Some s' \<Rightarrow> runTicks marshal ys s')"
  by (induction xs arbitrary: s) (auto split: option.splits)

lemma rangeOrder_dom: "dom tbl' = dom tbl \<Longrightarrow> rangeOrder tbl' keys = rangeOrder tbl keys"
  by (simp add: rangeOrder_def)

lemma runTicks_countdown:
  fixes s :: "'f Service"
  assumes "gridOk (worldMap s)" and "chansOpen s"
    and "\<forall>env \<in> set envs. rangeOrder (mobs s) (mob_order env)"
    and "mobs s k = Some mob" and "\<not> mAlive (State mob)"
    and "RespawnCounter mob > int (length envs)"
  shows "\<exists>s'. runTicks marshal envs s = Some s' \<and>
           mobs s' k = Some (mob\<lparr>RespawnCounter := RespawnCounter mob - int (length envs)\<rparr>) \<and>
           gridOk (worldMap s') \<and> chansOpen s' \<and> dom (mobs s') = dom (mobs s) \<and>
           tick s' = tick s + of_nat (length envs)"
  using assms
proof (induction envs arbitrary: s mob)
  case Nil
  then show ?case by simp
next
  case (Cons env envs)
  have r: "rangeOrder (mobs s) (mob_order env)" using Cons.prems(3) by simp
  have c: "RespawnCounter mob > 1" using Cons.prems(6) by simp
  from tickWorld_dead[OF Cons.prems(1,2) r Cons.prems(4,5), of marshal] c
  obtain s1 where tw: "tickWorld marshal env s = Some s1"
    and g1: "gridOk (worldMap s1)" and o1: "chansOpen s1" and d1: "dom (mobs s1) = dom (mobs s)"
    and t1: "tick s1 = tick s + 1"
    and m1: "mobs s1 k = Some (mob\<lparr>RespawnCounter := RespawnCounter mob - 1\<rparr>)"
    by blast
  have r1: "\<forall>env \<in> set envs. rangeOrder (mobs s1) (mob_order env)"
    using Cons.prems(3) rangeOrder_dom[OF d1] by simp
  have a1: "\<not> mAlive (State (mob\<lparr>RespawnCounter := RespawnCounter mob - 1\<rparr>))"
    using Cons.prems(5) by simp
  have c1: "RespawnCounter (mob\<lparr>RespawnCounter := RespawnCounter mob - 1\<rparr>) > int (length envs)"
    using Cons.prems(6) by simp
  from Cons.IH[OF g1 o1 r1 m1 a1 c1] obtain s' where
    rt: "runTicks marshal envs s1 = Some s'"
    and m': "mobs s' k = Some ((mob\<lparr>RespawnCounter := RespawnCounter mob - 1\<rparr>)
               \<lparr>RespawnCounter := RespawnCounter (mob\<lparr>RespawnCounter := RespawnCounter mob - 1\<rparr>)
                  - int (length envs)\<rparr>)"
    and rest: "gridOk (worldMap s')" "chansOpen s'" "dom (mobs s') = dom (mobs s1)"
      "tick s' = tick s1 + of_nat (length envs)"
    by blast
  have "(mob\<lparr>RespawnCounter := RespawnCounter mob - 1\<rparr>)
               \<lparr>RespawnCounter := RespawnCounter (mob\<lparr>RespawnCounter := RespawnCounter mob - 1\<rparr>)
                  - int (length envs)\<rparr> =
        mob\<lparr>RespawnCounter := RespawnCounter mob - int (length (env # envs))\<rparr>"
    by (simp add: algebra_simps)
  with m' have "mobs s' k = Some (mob\<lparr>RespawnCounter := RespawnCounter mob - int (length (env # envs))\<rparr>)"
    by simp
  moreover have "runTicks marshal (env # envs) s = Some s'"
    using tw rt by simp
  moreover have "tick s' = tick s + of_nat (length (env # envs))"
    using rest(4) t1 by simp
  ultimately show ?case
    using rest(1,2,3) d1 by auto
qed

subsection \<open>Kills\<close>

text \<open>An attack that hits: the states it passes through.\<close>

lemma Attack_hit:
  fixes s :: "'f Service"
  assumes p: "players s (CharacterID (heap s c)) = Some pr"
    and m: "mobs s targetID = Some mob" and a: "mAlive (State mob)"
    and d: "\<not> distance (pX pr) (pY pr) (mX (State mob)) (mY (State mob)) > playerAttackRange"
    and at: "Attack marshal s c targetID = Some s'"
  shows "\<exists>s2 :: 'f Service.
           onlyFrames (s\<lparr>mobs := (mobs s)(targetID \<mapsto>
               mob\<lparr>State := (State mob)\<lparr>mHP := mHP (State mob)
                    - (basePlayerDamage + (pLevel pr - 1) * 3)\<rparr>\<rparr>)\<rparr>) s2 \<and>
           onlyFrames (resolveKill s2 (CharacterID (heap s c)) targetID) s'"
proof -
  let ?cid = "CharacterID (heap s c)"
  define dmg where "dmg = basePlayerDamage + (pLevel pr - 1) * 3"
  define s1 where "s1 = s\<lparr>mobs := (mobs s)(targetID \<mapsto>
                                mob\<lparr>State := (State mob)\<lparr>mHP := mHP (State mob) - dmg\<rparr>\<rparr>)\<rparr>"
  from at p m a d obtain s2 where
    bc: "broadcastZone marshal s1 uuid_Nil (pZoneID pr)
               (Combat (UuidString ?cid) (MobId targetID) dmg) = Some s2"
    and rest: "(let s3 = resolveKill s2 ?cid targetID;
                              playerSnapshot = (case players s3 ?cid of
                                                  None \<Rightarrow> pr
                                                | Some p \<Rightarrow> p)
                          in if mobIsDead s3 targetID then
                               (case broadcastZone marshal s3 uuid_Nil (pZoneID pr) (MobDied targetID) of
                                  None \<Rightarrow> None
                                | Some s4 \<Rightarrow>
                                    (case broadcastZone marshal s4 uuid_Nil (pZoneID pr)
                                            (Broadcast (pName playerSnapshot @ '' defeated '' @
                                               targetID)) of
                                       None \<Rightarrow> None
                                     | Some s5 \<Rightarrow>
                                         nonBlockingSendJSON marshal s5 c
                                           (PlayerUpdate playerSnapshot)))
                             else Some s3) = Some s'"
    by (auto simp add: Attack_def Let_def dmg_def s1_def split: option.splits)
  define s3 where "s3 = resolveKill s2 ?cid targetID"
  have r2: "onlyFrames s1 s2" using broadcastZone_onlyFrames[OF bc] .
  have r4: "onlyFrames s3 s'"
  proof (cases "mobIsDead s3 targetID")
    case False
    with rest have "s' = s3" by (simp add: Let_def s3_def)
    then show ?thesis by (simp add: onlyFrames_refl)
  next
    case True
    with rest obtain s4 s5 p1 p2 where
      "broadcastZone marshal s3 uuid_Nil (pZoneID pr) (MobDied targetID) = Some s4"
      "broadcastZone marshal s4 uuid_Nil (pZoneID pr) p1 = Some s5"
      "nonBlockingSendJSON marshal s5 c p2 = Some s'"
      by (auto simp add: Let_def s3_def[symmetric] split: option.splits)
    then show ?thesis
      using onlyFrames_trans broadcastZone_onlyFrames nonBlockingSendJSON_onlyFrames
      by blast
  qed
  show ?thesis
    using r2 r4 unfolding s1_def s3_def dmg_def by blast
qed

text \<open>A mob that an attack leaves dead, and that was alive before it, has its respawn
  counter at 50 and no hit points.\<close>

lemma Attack_kill:
  fixes s :: "'f Service"
  assumes at: "Attack marshal s c k = Some s'"
    and m: "mobs s k = Some m0" and a: "mAlive (State m0)"
    and m': "mobs s' k = Some mob" and d: "\<not> mAlive (State mob)"
  shows "RespawnCounter mob = mobRespawnTicks \<and> mHP (State mob) = 0"
proof -
  let ?cid = "CharacterID (heap s c)"
  have same: "onlyFrames s s' \<Longrightarrow> False"
  proof -
    assume "onlyFrames s s'"
    from onlyFrames_fields(2)[OF this] m m' have "mob = m0" by simp
    with a d show False by simp
  qed
  show ?thesis
  proof (cases "players s ?cid")
    case None
    with at have "s' = s" by (simp add: Attack_def Let_def)
    with same show ?thesis by (simp add: onlyFrames_refl)
  next
    case (Some pr)
    show ?thesis
    proof (cases "\<not> distance (pX pr) (pY pr) (mX (State m0)) (mY (State m0)) > playerAttackRange")
      case False
      with at Some m a have "\<exists>p. nonBlockingSendJSON marshal s c p = Some s'"
        by (auto simp add: Attack_def Let_def split: option.splits if_splits)
      with same show ?thesis
        using nonBlockingSendJSON_onlyFrames by blast
    next
      case True
      from Attack_hit[OF Some m a True at] obtain s2 :: "'f Service" where
        f1: "onlyFrames (s\<lparr>mobs := (mobs s)(k \<mapsto>
               m0\<lparr>State := (State m0)\<lparr>mHP := mHP (State m0)
                    - (basePlayerDamage + (pLevel pr - 1) * 3)\<rparr>\<rparr>)\<rparr>) s2"
        and f2: "onlyFrames (resolveKill s2 ?cid k) s'"
        by blast
      have m2: "mobs s2 k = Some (m0\<lparr>State := (State m0)\<lparr>mHP := mHP (State m0)
                    - (basePlayerDamage + (pLevel pr - 1) * 3)\<rparr>\<rparr>)"
        using onlyFrames_fields(2)[OF f1] by simp
      have "mobs s' k = mobs (resolveKill s2 ?cid k) k"
        using onlyFrames_fields(2)[OF f2] by simp
      with m' m2 d a show ?thesis
        by (auto simp add: resolveKill_def split: if_splits)
    qed
  qed
qed

lemma Attack_kills:
  fixes s :: "'f Service"
  assumes p: "players s (CharacterID (heap s c)) = Some pr"
    and m: "mobs s k = Some mob" and a: "mAlive (State mob)"
    and d: "\<not> distance (pX pr) (pY pr) (mX (State mob)) (mY (State mob)) > playerAttackRange"
    and h: "mHP (State mob) \<le> basePlayerDamage + (pLevel pr - 1) * 3"
    and o: "chansOpen s" and oc: "\<not> closed (Send (heap s c))"
  shows "\<exists>s'. Attack marshal s c k = Some s' \<and>
           mobs s' k = Some (mob\<lparr>State := (State mob)\<lparr>mAlive := False, mHP := 0\<rparr>,
                                 RespawnCounter := mobRespawnTicks\<rparr>)"
proof -
  let ?cid = "CharacterID (heap s c)"
  define dmg where "dmg = basePlayerDamage + (pLevel pr - 1) * 3"
  define s1 where "s1 = s\<lparr>mobs := (mobs s)(k \<mapsto>
                                mob\<lparr>State := (State mob)\<lparr>mHP := mHP (State mob) - dmg\<rparr>\<rparr>)\<rparr>"
  have o1: "chansOpen s1" using o by (simp add: s1_def chansOpen_def)
  from broadcastZone_total[OF o1] obtain s2 where
    bc: "broadcastZone marshal s1 uuid_Nil (pZoneID pr)
               (Combat (UuidString ?cid) (MobId k) dmg) = Some s2"
    by blast
  have f2: "onlyFrames s1 s2" using broadcastZone_onlyFrames[OF bc] .
  have o2: "chansOpen s2" using onlyFrames_chansOpen[OF f2] o1 by simp
  have m2: "mobs s2 k = Some (mob\<lparr>State := (State mob)\<lparr>mHP := mHP (State mob) - dmg\<rparr>\<rparr>)"
    using onlyFrames_fields(2)[OF f2] by (simp add: s1_def)
  define s3 where "s3 = resolveKill s2 ?cid k"
  have t3: "tickRel s2 s3" unfolding s3_def by (rule resolveKill_tickRel)
  have o3: "chansOpen s3" using tickRel_fields[OF t3] o2 by (simp add: chansOpen_def)
  have m3: "mobs s3 k = Some (mob\<lparr>State := (State mob)\<lparr>mAlive := False, mHP := 0\<rparr>,
                                 RespawnCounter := mobRespawnTicks\<rparr>)"
    using m2 h a by (simp add: s3_def resolveKill_def dmg_def)
  have dead: "mobIsDead s3 k"
    using m3 by (simp add: mobIsDead_def)
  define snap where "snap = (case players s3 ?cid of None \<Rightarrow> pr | Some p \<Rightarrow> p)"
  from broadcastZone_total[OF o3] obtain s4 where
    b4: "broadcastZone marshal s3 uuid_Nil (pZoneID pr) (MobDied k) = Some s4" by blast
  have f4: "onlyFrames s3 s4" using broadcastZone_onlyFrames[OF b4] .
  have o4: "chansOpen s4" using onlyFrames_chansOpen[OF f4] o3 by simp
  from broadcastZone_total[OF o4] obtain s5 where
    b5: "broadcastZone marshal s4 uuid_Nil (pZoneID pr)
           (Broadcast (pName snap @ '' defeated '' @ k)) = Some s5" by blast
  have f5: "onlyFrames s4 s5" using broadcastZone_onlyFrames[OF b5] .
  have "closed (Send (heap s5 c)) = closed (Send (heap s c))"
    using onlyFrames_fields(13)[OF f5, of c] onlyFrames_fields(13)[OF f4, of c]
      tickRel_fields(2)[OF t3] onlyFrames_fields(13)[OF f2, of c]
    by (simp add: s1_def)
  with oc have oc5: "\<not> closed (Send (heap s5 c))" by simp
  from nonBlockingSendJSON_total[OF oc5] obtain s' where
    b6: "nonBlockingSendJSON marshal s5 c (PlayerUpdate snap) = Some s'" by blast
  have f6: "onlyFrames s5 s'" using nonBlockingSendJSON_onlyFrames[OF b6] .
  have "mobs s' k = mobs s3 k"
    using onlyFrames_fields(2)[OF f6] onlyFrames_fields(2)[OF f5] onlyFrames_fields(2)[OF f4]
    by simp
  moreover have "Attack marshal s c k = Some s'"
    using p m a d bc[unfolded s1_def dmg_def] dead[unfolded s3_def] b4[unfolded s3_def]
      b5[unfolded snap_def s3_def] b6[unfolded snap_def s3_def]
    by (simp add: Attack_def Let_def)
  ultimately show ?thesis using m3 by simp
qed

subsection \<open>The frames of an attack and of a tick\<close>

lemma framesAdded_refl: "framesAdded 0 s s"
  by (simp add: framesAdded_def)

lemma framesAdded_heap: "heap s' = heap s \<Longrightarrow> framesAdded 0 s s'"
  by (simp add: framesAdded_def)

lemma framesAddedD:
  "framesAdded n s s' \<Longrightarrow>
   \<exists>fs. buf (Send (heap s' c)) = buf (Send (heap s c)) @ fs \<and> length fs \<le> n"
  by (simp add: framesAdded_def)

lemma framesAdded_trans:
  assumes "framesAdded n s s'" and "framesAdded m s' s''"
  shows "framesAdded (n + m) s s''"
  unfolding framesAdded_def
proof
  fix c
  from framesAddedD[OF assms(1), of c] obtain xs where
    a: "buf (Send (heap s' c)) = buf (Send (heap s c)) @ xs" "length xs \<le> n" by blast
  from framesAddedD[OF assms(2), of c] obtain ys where
    b: "buf (Send (heap s'' c)) = buf (Send (heap s' c)) @ ys" "length ys \<le> m" by blast
  have "buf (Send (heap s'' c)) = buf (Send (heap s c)) @ (xs @ ys) \<and> length (xs @ ys) \<le> n + m"
    using a b by simp
  then show "\<exists>fs. buf (Send (heap s'' c)) = buf (Send (heap s c)) @ fs \<and> length fs \<le> n + m"
    by blast
qed

lemma framesAdded_length:
  "framesAdded n s s' \<Longrightarrow>
   length (buf (Send (heap s c))) \<le> length (buf (Send (heap s' c))) \<and>
   length (buf (Send (heap s' c))) \<le> length (buf (Send (heap s c))) + n"
  using framesAddedD[of n s s' c] by auto

lemma nonBlockingSend_grows:
  "nonBlockingSend ch b = Some ch' \<Longrightarrow> \<exists>fs. buf ch' = buf ch @ fs \<and> length fs \<le> 1"
  by (auto simp add: nonBlockingSend_def split: if_splits)

lemma nonBlockingSendJSON_framesAdded:
  assumes "nonBlockingSendJSON marshal s c p = Some s'"
  shows "framesAdded 1 s s'"
proof (cases "marshal p")
  case None
  with assms show ?thesis by (simp add: nonBlockingSendJSON_def framesAdded_def)
next
  case (Some b)
  with assms obtain ch where ch: "nonBlockingSend (Send (heap s c)) b = Some ch"
    and s': "s' = s\<lparr>heap := (heap s)(c := (heap s c)\<lparr>Send := ch\<rparr>)\<rparr>"
    by (auto simp add: nonBlockingSendJSON_def split: option.splits)
  show ?thesis
    unfolding framesAdded_def s' using nonBlockingSend_grows[OF ch] by auto
qed

lemma broadcastZone_framesAdded:
  assumes "broadcastZone marshal s skip zone p = Some s'"
  shows "framesAdded 1 s s'"
proof (cases "marshal p")
  case None
  with assms show ?thesis by (simp add: broadcastZone_def framesAdded_def)
next
  case (Some b)
  with assms have s': "s' = s\<lparr>heap := (\<lambda>c.
              if c \<in> zoneRecipients s skip zone then
                (case nonBlockingSend (Send (heap s c)) b of
                   None \<Rightarrow> heap s c
                 | Some ch \<Rightarrow> (heap s c)\<lparr>Send := ch\<rparr>)
              else heap s c)\<rparr>"
    by (auto simp add: broadcastZone_def split: if_splits)
  show ?thesis
    unfolding framesAdded_def s'
  proof
    fix c
    show "\<exists>fs. buf (Send (heap (s\<lparr>heap := (\<lambda>c.
              if c \<in> zoneRecipients s skip zone then
                (case nonBlockingSend (Send (heap s c)) b of
                   None \<Rightarrow> heap s c
                 | Some ch \<Rightarrow> (heap s c)\<lparr>Send := ch\<rparr>)
              else heap s c)\<rparr>) c)) = buf (Send (heap s c)) @ fs \<and> length fs \<le> 1"
      using nonBlockingSend_grows[of "Send (heap s c)" b]
      by (cases "nonBlockingSend (Send (heap s c)) b") auto
  qed
qed

lemma broadcastEvents_framesAdded:
  "broadcastEvents marshal s evts = Some s' \<Longrightarrow> framesAdded (length evts) s s'"
proof (induction evts arbitrary: s)
  case Nil
  then show ?case by (simp add: framesAdded_refl)
next
  case (Cons evt evts)
  then obtain s1 where a: "broadcastZone marshal s uuid_Nil (fst evt) (snd evt) = Some s1"
    and b: "broadcastEvents marshal s1 evts = Some s'"
    by (auto split: option.splits)
  from framesAdded_trans[OF broadcastZone_framesAdded[OF a] Cons.IH[OF b]]
  show ?case by simp
qed

lemma broadcastZone_delivers:
  assumes "broadcastZone marshal s skip zone p = Some s'" and "marshal p = Some f"
    and "isRecipient s skip zone c" and "length (buf (Send (heap s c))) < 128"
  shows "buf (Send (heap s' c)) = buf (Send (heap s c)) @ [f]"
proof -
  from assms(1,2) have s': "s' = s\<lparr>heap := (\<lambda>c.
              if c \<in> zoneRecipients s skip zone then
                (case nonBlockingSend (Send (heap s c)) f of
                   None \<Rightarrow> heap s c
                 | Some ch \<Rightarrow> (heap s c)\<lparr>Send := ch\<rparr>)
              else heap s c)\<rparr>"
    and op: "\<not> (\<exists>c \<in> zoneRecipients s skip zone. closed (Send (heap s c)))"
    by (auto simp add: broadcastZone_def split: if_splits)
  have r: "c \<in> zoneRecipients s skip zone"
    using assms(3) by (simp add: zoneRecipients_iff)
  then have "\<not> closed (Send (heap s c))" using op by blast
  then show ?thesis
    unfolding s' using r assms(4) by (simp add: nonBlockingSend_def)
qed

lemma isRecipient_onlyFrames:
  "onlyFrames s s' \<Longrightarrow> isRecipient s' skip zone c = isRecipient s skip zone c"
  by (simp add: isRecipient_def onlyFrames_fields)

lemma broadcastEvents_delivers:
  assumes "broadcastEvents marshal s evts = Some s'"
    and "(zone, p) \<in> set evts" and "marshal p = Some f"
    and "isRecipient s uuid_Nil zone c" and "length (buf (Send (heap s' c))) < 128"
  shows "f \<in> set (drop (length (buf (Send (heap s c)))) (buf (Send (heap s' c))))"
  using assms
proof (induction evts arbitrary: s)
  case Nil
  then show ?case by simp
next
  case (Cons evt evts)
  from Cons.prems(1) obtain s1 where
    a: "broadcastZone marshal s uuid_Nil (fst evt) (snd evt) = Some s1"
    and b: "broadcastEvents marshal s1 evts = Some s'"
    by (auto split: option.splits)
  from framesAddedD[OF broadcastZone_framesAdded[OF a], of c] obtain xs where
    xs: "buf (Send (heap s1 c)) = buf (Send (heap s c)) @ xs" by blast
  from framesAddedD[OF broadcastEvents_framesAdded[OF b], of c] obtain ys where
    ys: "buf (Send (heap s' c)) = buf (Send (heap s1 c)) @ ys" by blast
  have all: "drop (length (buf (Send (heap s c)))) (buf (Send (heap s' c))) = xs @ ys"
    using xs ys by simp
  show ?case
  proof (cases "evt = (zone, p)")
    case True
    have "length (buf (Send (heap s c))) < 128"
      using Cons.prems(5) xs ys by simp
    from broadcastZone_delivers[OF a _ _ this, of f] True Cons.prems(3,4)
    have "buf (Send (heap s1 c)) = buf (Send (heap s c)) @ [f]" by simp
    with xs have "xs = [f]" by simp
    with all show ?thesis by simp
  next
    case False
    with Cons.prems(2) have m: "(zone, p) \<in> set evts" by simp
    have r: "isRecipient s1 uuid_Nil zone c"
      using isRecipient_onlyFrames[OF broadcastZone_onlyFrames[OF a]] Cons.prems(4) by simp
    from Cons.IH[OF b m Cons.prems(3) r Cons.prems(5)]
    have "f \<in> set ys" using ys by simp
    with all show ?thesis by simp
  qed
qed

text \<open>The frames of one tick: every event of the tick and the mob update are offered to
  the sessions, in this order.\<close>

lemma tickWorld_frames:
  assumes tw: "tickWorld marshal env s = Some s'"
    and tl: "tickLocked env s = Some (s1, evs, snap)"
  shows "framesAdded (length evs + 1) s s'"
    and "(zone, p) \<in> set evs \<Longrightarrow> marshal p = Some f \<Longrightarrow> isRecipient s' uuid_Nil zone c \<Longrightarrow>
         length (buf (Send (heap s' c))) < 128 \<Longrightarrow>
         f \<in> set (drop (length (buf (Send (heap s c)))) (buf (Send (heap s' c))))"
proof -
  from tw tl obtain s2 where
    b: "broadcastEvents marshal s1 evs = Some s2"
    and c: "broadcastZone marshal s2 uuid_Nil (zoneID s2) (MobUpdate snap) = Some s'"
    by (auto simp add: tickWorld_def split: option.splits)
  have h: "heap s1 = heap s"
    using tickRel_fields(2)[OF tickLocked_tickRel[OF tl]] .
  have f1: "framesAdded (length evs + 1) s1 s'"
    using framesAdded_trans[OF broadcastEvents_framesAdded[OF b] broadcastZone_framesAdded[OF c]] .
  then show "framesAdded (length evs + 1) s s'"
    by (simp add: framesAdded_def h)
  assume m: "(zone, p) \<in> set evs" and f: "marshal p = Some f"
    and r: "isRecipient s' uuid_Nil zone c" and l: "length (buf (Send (heap s' c))) < 128"
  have fr: "onlyFrames s1 s'"
    using onlyFrames_trans[OF broadcastEvents_onlyFrames[OF b] broadcastZone_onlyFrames[OF c]] .
  have r1: "isRecipient s1 uuid_Nil zone c"
    using isRecipient_onlyFrames[OF fr] r by simp
  from framesAddedD[OF broadcastZone_framesAdded[OF c], of c] obtain zs where
    zs: "buf (Send (heap s' c)) = buf (Send (heap s2 c)) @ zs" by blast
  from framesAddedD[OF broadcastEvents_framesAdded[OF b], of c] obtain ys where
    ys: "buf (Send (heap s2 c)) = buf (Send (heap s1 c)) @ ys" by blast
  have l2: "length (buf (Send (heap s2 c))) < 128" using l zs by simp
  from broadcastEvents_delivers[OF b m f r1 l2] have "f \<in> set ys"
    using ys by simp
  then show "f \<in> set (drop (length (buf (Send (heap s c)))) (buf (Send (heap s' c))))"
    using ys zs h by simp
qed


lemma framesAdded_mono: "framesAdded n s s' \<Longrightarrow> n \<le> m \<Longrightarrow> framesAdded m s s'"
  unfolding framesAdded_def by (meson le_trans)

lemma levelUp_zone: "pZoneID (levelUp p) = pZoneID p"
proof (induction p rule: levelUp.induct)
  case (1 pr)
  show ?case
  proof (cases "pExperience pr \<ge> pLevel pr * 100")
    case True
    then show ?thesis
      using 1 by (subst levelUp.simps) (simp add: Let_def)
  next
    case False
    then show ?thesis
      by (subst levelUp.simps) simp
  qed
qed

lemma resolveKill_isRecipient:
  "isRecipient (resolveKill s cid k) skip zone x = isRecipient s skip zone x"
  by (auto simp add: resolveKill_def isRecipient_def grantKill_def levelUp_zone
      split: option.splits)

lemma resolveKill_heap: "heap (resolveKill s cid k) = heap s"
  by (simp add: resolveKill_def split: option.splits)

text \<open>An attack offers at most four frames to a session, and changes no session's
  character and no player's zone.\<close>

lemma Attack_frames:
  fixes s :: "'f Service"
  assumes at: "Attack marshal s c targetID = Some s'"
  shows "framesAdded 4 s s'" and "isRecipient s' skip zone x = isRecipient s skip zone x"
proof -
  let ?cid = "CharacterID (heap s c)"
  have both: "framesAdded 4 s s' \<and> isRecipient s' skip zone x = isRecipient s skip zone x"
  proof (cases "players s ?cid")
    case None
    with at have "s' = s" by (simp add: Attack_def Let_def)
    then show ?thesis by (simp add: framesAdded_mono[OF framesAdded_refl])
  next
    case (Some pr)
    show ?thesis
    proof (cases "\<exists>mob. mobs s targetID = Some mob \<and> mAlive (State mob) \<and>
              \<not> distance (pX pr) (pY pr) (mX (State mob)) (mY (State mob)) > playerAttackRange")
      case False
      with at Some obtain p where p: "nonBlockingSendJSON marshal s c p = Some s'"
        by (auto simp add: Attack_def Let_def split: option.splits if_splits)
      show ?thesis
        using framesAdded_mono[OF nonBlockingSendJSON_framesAdded[OF p], of 4]
          isRecipient_onlyFrames[OF nonBlockingSendJSON_onlyFrames[OF p]] by simp
    next
      case True
      then obtain mob where mob: "mobs s targetID = Some mob" "mAlive (State mob)"
        "\<not> distance (pX pr) (pY pr) (mX (State mob)) (mY (State mob)) > playerAttackRange"
        by blast
      define dmg where "dmg = basePlayerDamage + (pLevel pr - 1) * 3"
      define s1 where "s1 = s\<lparr>mobs := (mobs s)(targetID \<mapsto>
                                mob\<lparr>State := (State mob)\<lparr>mHP := mHP (State mob) - dmg\<rparr>\<rparr>)\<rparr>"
      from at Some mob obtain s2 where
        bc: "broadcastZone marshal s1 uuid_Nil (pZoneID pr)
               (Combat (UuidString ?cid) (MobId targetID) dmg) = Some s2"
        and rest: "(let s3 = resolveKill s2 ?cid targetID;
                              playerSnapshot = (case players s3 ?cid of
                                                  None \<Rightarrow> pr
                                                | Some p \<Rightarrow> p)
                          in if mobIsDead s3 targetID then
                               (case broadcastZone marshal s3 uuid_Nil (pZoneID pr) (MobDied targetID) of
                                  None \<Rightarrow> None
                                | Some s4 \<Rightarrow>
                                    (case broadcastZone marshal s4 uuid_Nil (pZoneID pr)
                                            (Broadcast (pName playerSnapshot @ '' defeated '' @
                                               targetID)) of
                                       None \<Rightarrow> None
                                     | Some s5 \<Rightarrow>
                                         nonBlockingSendJSON marshal s5 c
                                           (PlayerUpdate playerSnapshot)))
                             else Some s3) = Some s'"
        by (auto simp add: Attack_def Let_def dmg_def s1_def split: option.splits)
      define s3 where "s3 = resolveKill s2 ?cid targetID"
      have a1: "framesAdded 0 s s1" "isRecipient s1 skip zone x = isRecipient s skip zone x"
        by (simp_all add: s1_def framesAdded_def isRecipient_def)
      have a2: "framesAdded 1 s1 s2" "isRecipient s2 skip zone x = isRecipient s1 skip zone x"
        using broadcastZone_framesAdded[OF bc] isRecipient_onlyFrames[OF broadcastZone_onlyFrames[OF bc]]
        by simp_all
      have a3: "framesAdded 0 s2 s3" "isRecipient s3 skip zone x = isRecipient s2 skip zone x"
        unfolding s3_def
        by (simp_all add: framesAdded_heap resolveKill_heap resolveKill_isRecipient)
      have a4: "framesAdded 3 s3 s' \<and> isRecipient s' skip zone x = isRecipient s3 skip zone x"
      proof (cases "mobIsDead s3 targetID")
        case False
        with rest have "s' = s3" by (simp add: Let_def s3_def)
        then show ?thesis by (simp add: framesAdded_mono[OF framesAdded_refl])
      next
        case True
        with rest obtain s4 s5 p1 p2 where
          b4: "broadcastZone marshal s3 uuid_Nil (pZoneID pr) (MobDied targetID) = Some s4"
          and b5: "broadcastZone marshal s4 uuid_Nil (pZoneID pr) p1 = Some s5"
          and b6: "nonBlockingSendJSON marshal s5 c p2 = Some s'"
          by (auto simp add: Let_def s3_def[symmetric] split: option.splits)
        have "framesAdded 3 s3 s'"
          by (rule framesAdded_mono[OF framesAdded_trans[OF broadcastZone_framesAdded[OF b4]
              framesAdded_trans[OF broadcastZone_framesAdded[OF b5]
                nonBlockingSendJSON_framesAdded[OF b6]]]]) simp
        moreover have "isRecipient s' skip zone x = isRecipient s3 skip zone x"
          using isRecipient_onlyFrames[OF broadcastZone_onlyFrames[OF b4]]
            isRecipient_onlyFrames[OF broadcastZone_onlyFrames[OF b5]]
            isRecipient_onlyFrames[OF nonBlockingSendJSON_onlyFrames[OF b6]] by simp
        ultimately show ?thesis by simp
      qed
      have "framesAdded 4 s s'"
        by (rule framesAdded_mono[OF framesAdded_trans[OF a1(1) framesAdded_trans[OF a2(1)
              framesAdded_trans[OF a3(1) conjunct1[OF a4]]]]]) simp
      then show ?thesis
        using a1(2) a2(2) a3(2) a4 by simp
    qed
  qed
  show "framesAdded 4 s s'" using both by simp
  show "isRecipient s' skip zone x = isRecipient s skip zone x" using both by simp
qed

text \<open>A tick that visits one mob, and that mob is dead.\<close>

lemma tickWorld_lone_dead:
  fixes s :: "'f Service"
  assumes g: "gridOk (worldMap s)" and o: "chansOpen s"
    and mo: "mob_order env = [k]"
    and m: "mobs s k = Some mob" and d: "\<not> mAlive (State mob)"
    and c: "RespawnCounter mob \<ge> 1"
  shows "\<exists>s'. tickWorld marshal env s = Some s' \<and> gridOk (worldMap s') \<and> chansOpen s' \<and>
           (\<forall>skip zone x. isRecipient s' skip zone x = isRecipient s skip zone x) \<and>
           framesAdded 2 s s' \<and>
           (RespawnCounter mob > 1 \<longrightarrow>
              mobs s' k = Some (mob\<lparr>RespawnCounter := RespawnCounter mob - 1\<rparr>) \<and>
              framesAdded 1 s s')"
proof -
  from tickWorld_total[OF g o] obtain s' where tw: "tickWorld marshal env s = Some s'"
    by blast
  from tickWorld_Some[OF tw] obtain s1 evs snap where
    tl: "tickLocked env s = Some (s1, evs, snap)" and tr: "tickRel s s1" and fr: "onlyFrames s1 s'"
    by blast
  have po: "placesOk s s'"
    using placesOk_trans[OF tickRel_placesOk[OF tr] onlyFrames_placesOk[OF fr]] .
  have g': "gridOk (worldMap s')" using po g by (simp add: placesOk_def)
  have o': "chansOpen s'"
    using tickRel_fields[OF tr] onlyFrames_fields[OF fr] o by (auto simp add: chansOpen_def)
  from tl mo have st: "stepMob env (s\<lparr>tick := tick s + 1\<rparr>) k = Some (s1, evs)"
    by (auto simp add: tickLocked_def stepMobsLocked_def split: option.splits)
  have m1: "mobs (s\<lparr>tick := tick s + 1\<rparr>) k = Some mob" using m by simp
  have p1: "players s1 = players s \<and> length evs \<le> 1 \<and>
            (RespawnCounter mob > 1 \<longrightarrow>
               mobs s1 k = Some (mob\<lparr>RespawnCounter := RespawnCounter mob - 1\<rparr>) \<and> evs = [])"
  proof (cases "RespawnCounter mob > 1")
    case True
    from stepMob_dead_waits[OF m1 d True, of env] st show ?thesis by auto
  next
    case False
    with c have "RespawnCounter mob = 1" by simp
    from stepMob_dead_revives[OF m1 d this, of env] st False show ?thesis by auto
  qed
  have rc: "isRecipient s' skip zone x = isRecipient s skip zone x" for skip zone x
    using isRecipient_onlyFrames[OF fr, of skip zone x] p1 tickRel_fields(2,3)[OF tr]
    by (simp add: isRecipient_def)
  have f2: "framesAdded 2 s s'"
    using framesAdded_mono[OF tickWorld_frames(1)[OF tw tl]] p1 by simp
  have f1: "RespawnCounter mob > 1 \<longrightarrow>
              mobs s' k = Some (mob\<lparr>RespawnCounter := RespawnCounter mob - 1\<rparr>) \<and>
              framesAdded 1 s s'"
    using tickWorld_frames(1)[OF tw tl] p1 onlyFrames_fields(2)[OF fr] by auto
  show ?thesis
    using tw g' o' rc f2 f1 by blast
qed

lemma runTicks_lone_quiet:
  fixes s :: "'f Service"
  assumes "gridOk (worldMap s)" and "chansOpen s"
    and "\<forall>env \<in> set envs. mob_order env = [k]"
    and "mobs s k = Some mob" and "\<not> mAlive (State mob)"
    and "RespawnCounter mob > int (length envs)"
  shows "\<exists>s'. runTicks marshal envs s = Some s' \<and> gridOk (worldMap s') \<and> chansOpen s' \<and>
           mobs s' k = Some (mob\<lparr>RespawnCounter := RespawnCounter mob - int (length envs)\<rparr>) \<and>
           (\<forall>skip zone x. isRecipient s' skip zone x = isRecipient s skip zone x) \<and>
           framesAdded (length envs) s s'"
  using assms
proof (induction envs arbitrary: s mob)
  case Nil
  then show ?case by (simp add: framesAdded_refl)
next
  case (Cons env envs)
  have mo: "mob_order env = [k]" using Cons.prems(3) by simp
  have c: "RespawnCounter mob > 1" "RespawnCounter mob \<ge> 1" using Cons.prems(6) by simp_all
  from tickWorld_lone_dead[OF Cons.prems(1,2) mo Cons.prems(4,5) c(2), of marshal] c(1)
  obtain s1 where tw: "tickWorld marshal env s = Some s1"
    and g1: "gridOk (worldMap s1)" and o1: "chansOpen s1"
    and r1: "\<And>skip zone x. isRecipient s1 skip zone x = isRecipient s skip zone x"
    and m1: "mobs s1 k = Some (mob\<lparr>RespawnCounter := RespawnCounter mob - 1\<rparr>)"
    and f1: "framesAdded 1 s s1"
    by blast
  have e1: "\<forall>env \<in> set envs. mob_order env = [k]" using Cons.prems(3) by simp
  have a1: "\<not> mAlive (State (mob\<lparr>RespawnCounter := RespawnCounter mob - 1\<rparr>))"
    using Cons.prems(5) by simp
  have c1: "RespawnCounter (mob\<lparr>RespawnCounter := RespawnCounter mob - 1\<rparr>) > int (length envs)"
    using Cons.prems(6) by simp
  from Cons.IH[OF g1 o1 e1 m1 a1 c1] obtain s' where
    rt: "runTicks marshal envs s1 = Some s'"
    and g': "gridOk (worldMap s')" and o': "chansOpen s'"
    and m': "mobs s' k = Some ((mob\<lparr>RespawnCounter := RespawnCounter mob - 1\<rparr>)
               \<lparr>RespawnCounter := RespawnCounter (mob\<lparr>RespawnCounter := RespawnCounter mob - 1\<rparr>)
                  - int (length envs)\<rparr>)"
    and r': "\<And>skip zone x. isRecipient s' skip zone x = isRecipient s1 skip zone x"
    and f': "framesAdded (length envs) s1 s'"
    by blast
  have "(mob\<lparr>RespawnCounter := RespawnCounter mob - 1\<rparr>)
               \<lparr>RespawnCounter := RespawnCounter (mob\<lparr>RespawnCounter := RespawnCounter mob - 1\<rparr>)
                  - int (length envs)\<rparr> =
        mob\<lparr>RespawnCounter := RespawnCounter mob - int (length (env # envs))\<rparr>"
    by (simp add: algebra_simps)
  with m' have mm: "mobs s' k = Some (mob\<lparr>RespawnCounter := RespawnCounter mob - int (length (env # envs))\<rparr>)"
    by simp
  have rr: "runTicks marshal (env # envs) s = Some s'"
    using tw rt by simp
  have ff: "framesAdded (length (env # envs)) s s'"
    using framesAdded_trans[OF f1 f'] by simp
  show ?case
    using rr g' o' mm r' r1 ff by auto
qed

lemma emitted_chansOpen:
  assumes "chansOpen s"
  shows "chansOpen (emitted marshal s skip zone p)"
proof -
  have "broadcastZone marshal s skip zone p = Some (emitted marshal s skip zone p)"
    using broadcastZone_emitted[OF assms] .
  from onlyFrames_chansOpen[OF broadcastZone_onlyFrames[OF this]] assms show ?thesis
    by simp
qed

lemma broadcastEvents_emitted:
  "chansOpen s \<Longrightarrow> broadcastEvents marshal s evs = Some (emittedEvents marshal s evs)"
proof (induction evs arbitrary: s)
  case Nil
  then show ?case by (simp add: emittedEvents_def)
next
  case (Cons evt evs)
  have "broadcastEvents marshal (emitted marshal s uuid_Nil (fst evt) (snd evt)) evs =
        Some (emittedEvents marshal (emitted marshal s uuid_Nil (fst evt) (snd evt)) evs)"
    using Cons.IH[OF emitted_chansOpen[OF Cons.prems]] .
  then show ?case
    by (simp add: broadcastZone_emitted[OF Cons.prems] emittedEvents_def)
qed

lemma emittedEvents_chansOpen:
  "chansOpen s \<Longrightarrow> chansOpen (emittedEvents marshal s evs)"
  using broadcastEvents_emitted[of s marshal evs] broadcastEvents_onlyFrames onlyFrames_chansOpen
  by blast

text \<open>A tick emits its events in order, then the mob update.\<close>

lemma tickWorld_emitted:
  assumes o: "chansOpen s" and tl: "tickLocked env s = Some (s1, evs, snap)"
  shows "tickWorld marshal env s =
           Some (emitted marshal (emittedEvents marshal s1 evs) uuid_Nil (zoneID s1)
                   (MobUpdate snap))"
proof -
  have o1: "chansOpen s1"
    using tickRel_fields[OF tickLocked_tickRel[OF tl]] o by (simp add: chansOpen_def)
  have b: "broadcastEvents marshal s1 evs = Some (emittedEvents marshal s1 evs)"
    using broadcastEvents_emitted[OF o1] .
  have z: "zoneID (emittedEvents marshal s1 evs) = zoneID s1"
    using onlyFrames_fields(5)[OF broadcastEvents_onlyFrames[OF b]] .
  show ?thesis
    using tl b z broadcastZone_emitted[OF emittedEvents_chansOpen[OF o1]]
    by (simp add: tickWorld_def)
qed

text \<open>
  C4. A mob that an attack kills has its respawn counter set to 50. From then on, with
  nothing but ticks happening (on a loaded grid, the queues open, every tick visiting
  each mob once): after \<open>n < 50\<close> ticks the mob is still dead and its counter is
  \<open>50 - n\<close>; the 50th tick emits the notice "<name> has respawned" to the mob's zone,
  and after it the mob is alive with full hit points at its spawn point. Emitting the
  notice means: it is among the events of that tick, the tick emits its events in order
  and then the mob update (each offered to the sessions of its zone without blocking), and
  so the frame of the notice is among the frames that the tick appends to the queue of
  every session whose player is in the mob's zone, unless that queue is full (128 frames)
  when the tick ends. A dead mob whose counter is not positive keeps its counter in a
  step: it is only decremented when positive.
\<close>

theorem mob_respawns_after_50_ticks:
  fixes s0 :: "'f Service"
  assumes "gridOk (worldMap s0)" and "chansOpen s0"
    and "mobs s0 k = Some m0" and "mAlive (State m0)"
    and "Attack marshal s0 c k = Some s"
    and "mobs s k = Some mob" and "\<not> mAlive (State mob)"
    and "length envs = 50"
    and "\<forall>env \<in> set envs. rangeOrder (mobs s) (mob_order env)"
  shows "RespawnCounter mob = 50 \<and>
         (\<forall>n < 50. \<exists>sn. runTicks marshal (take n envs) s = Some sn \<and>
             mobs sn k = Some (mob\<lparr>RespawnCounter := 50 - int n\<rparr>)) \<and>
         (\<exists>s49 s1 evs snap s50.
             runTicks marshal (take 49 envs) s = Some s49 \<and>
             tickLocked (envs ! 49) s49 = Some (s1, evs, snap) \<and>
             (mZoneID (State mob), Broadcast (mName (State mob) @ '' has respawned''))
               \<in> set evs \<and>
             tickWorld marshal (envs ! 49) s49 = Some s50 \<and>
             s50 = emitted marshal (emittedEvents marshal s1 evs) uuid_Nil (zoneID s1)
                     (MobUpdate snap) \<and>
             (\<forall>x f. marshal (Broadcast (mName (State mob) @ '' has respawned'')) = Some f \<and>
                 isRecipient s50 uuid_Nil (mZoneID (State mob)) x \<and>
                 length (buf (Send (heap s50 x))) < 128 \<longrightarrow>
                 f \<in> set (drop (length (buf (Send (heap s49 x)))) (buf (Send (heap s50 x))))) \<and>
             runTicks marshal envs s = Some s50 \<and> tick s50 = tick s + 50 \<and>
             mobs s50 k =
               Some (mob\<lparr>RespawnCounter := 0,
                         State := (State mob)\<lparr>mAlive := True, mHP := mMaxHP (State mob),
                                               mX := SpawnX mob, mY := SpawnY mob\<rparr>\<rparr>)) \<and>
         (\<forall>(t :: 'f Service) env j stuck.
             mobs t j = Some stuck \<and> \<not> mAlive (State stuck) \<and> RespawnCounter stuck \<le> 0 \<longrightarrow>
             (\<exists>t' evs stuck'. stepMob env t j = Some (t', evs) \<and> mobs t' j = Some stuck' \<and>
                RespawnCounter stuck' = RespawnCounter stuck))"
proof -
  have po: "placesOk s0 s" and cl: "clients s = clients s0"
    and cs: "\<And>x. closed (Send (heap s x)) = closed (Send (heap s0 x))"
    using Attack_placesOk[OF assms(5)] by simp_all
  have g: "gridOk (worldMap s)" using po assms(1) by (simp add: placesOk_def)
  have o: "chansOpen s" using assms(2) cl cs by (simp add: chansOpen_def)
  have rc: "RespawnCounter mob = 50"
    using Attack_kill[OF assms(5) assms(3) assms(4) assms(6) assms(7)]
    by (simp add: mobRespawnTicks_def)
  have count: "\<exists>sn. runTicks marshal (take n envs) s = Some sn \<and>
             mobs sn k = Some (mob\<lparr>RespawnCounter := 50 - int n\<rparr>) \<and>
             gridOk (worldMap sn) \<and> chansOpen sn \<and> dom (mobs sn) = dom (mobs s) \<and>
             tick sn = tick s + of_nat n" if n: "n < 50" for n
  proof -
    have l: "length (take n envs) = n" using n assms(8) by simp
    have r: "\<forall>env \<in> set (take n envs). rangeOrder (mobs s) (mob_order env)"
      using assms(9) by (meson in_set_takeD)
    have c: "RespawnCounter mob > int (length (take n envs))"
      using rc n l by simp
    have mn: "min (length envs) n = n" using n assms(8) by simp
    from runTicks_countdown[OF g o r assms(6) assms(7) c, of marshal] show ?thesis
      by (simp add: mn rc)
  qed
  from count[of 49] obtain s49 where
    r49: "runTicks marshal (take 49 envs) s = Some s49"
    and m49: "mobs s49 k = Some (mob\<lparr>RespawnCounter := 1\<rparr>)"
    and g49: "gridOk (worldMap s49)" and o49: "chansOpen s49"
    and d49: "dom (mobs s49) = dom (mobs s)" and t49: "tick s49 = tick s + 49"
    by auto
  have e49: "envs ! 49 \<in> set envs" using assms(8) by simp
  have ro: "rangeOrder (mobs s49) (mob_order (envs ! 49))"
    using assms(9) e49 rangeOrder_dom[OF d49] by simp
  have dd: "\<not> mAlive (State (mob\<lparr>RespawnCounter := 1\<rparr>))" using assms(7) by simp
  from tickWorld_dead[OF g49 o49 ro m49 dd, of marshal]
  obtain s1 evs snap s50 where
    tl: "tickLocked (envs ! 49) s49 = Some (s1, evs, snap)"
    and tw: "tickWorld marshal (envs ! 49) s49 = Some s50"
    and t50: "tick s50 = tick s49 + 1"
    and m50: "mobs s50 k = Some (mob\<lparr>RespawnCounter := 0,
                  State := (State mob)\<lparr>mAlive := True, mHP := mMaxHP (State mob),
                                        mX := SpawnX mob, mY := SpawnY mob\<rparr>\<rparr>)"
    and ev: "(mZoneID (State mob), Broadcast (mName (State mob) @ '' has respawned'')) \<in> set evs"
    by auto
  have em: "s50 = emitted marshal (emittedEvents marshal s1 evs) uuid_Nil (zoneID s1)
                     (MobUpdate snap)"
    using tickWorld_emitted[OF o49 tl, of marshal] tw by simp
  have dl: "\<forall>x f. marshal (Broadcast (mName (State mob) @ '' has respawned'')) = Some f \<and>
                 isRecipient s50 uuid_Nil (mZoneID (State mob)) x \<and>
                 length (buf (Send (heap s50 x))) < 128 \<longrightarrow>
                 f \<in> set (drop (length (buf (Send (heap s49 x)))) (buf (Send (heap s50 x))))"
    using tickWorld_frames(2)[OF tw tl ev] by blast
  have "envs = take 49 envs @ [envs ! 49]"
    using assms(8) take_Suc_conv_app_nth[of 49 envs] by simp
  then have "runTicks marshal envs s = runTicks marshal (take 49 envs @ [envs ! 49]) s"
    by simp
  also have "\<dots> = Some s50"
    using r49 tw by (simp add: runTicks_append)
  finally have r50: "runTicks marshal envs s = Some s50" .
  have tk: "tick s50 = tick s + 50" using t50 t49 by simp
  have stuck: "\<exists>t' evs stuck'. stepMob env t j = Some (t', evs) \<and> mobs t' j = Some stuck' \<and>
                RespawnCounter stuck' = RespawnCounter stuck"
    if "mobs t j = Some stuck \<and> \<not> mAlive (State stuck) \<and> RespawnCounter stuck \<le> 0"
    for t :: "'f Service" and env j stuck
  proof (cases "RespawnCounter stuck = 0")
    case True
    with that stepMob_dead_zero[of t j stuck env] show ?thesis by simp
  next
    case False
    with that stepMob_dead_stuck[of t j stuck env] show ?thesis by simp
  qed
  have first: "\<forall>n < 50. \<exists>sn. runTicks marshal (take n envs) s = Some sn \<and>
             mobs sn k = Some (mob\<lparr>RespawnCounter := 50 - int n\<rparr>)"
    using count by blast
  have third: "\<exists>s49 s1 evs snap s50.
             runTicks marshal (take 49 envs) s = Some s49 \<and>
             tickLocked (envs ! 49) s49 = Some (s1, evs, snap) \<and>
             (mZoneID (State mob), Broadcast (mName (State mob) @ '' has respawned''))
               \<in> set evs \<and>
             tickWorld marshal (envs ! 49) s49 = Some s50 \<and>
             s50 = emitted marshal (emittedEvents marshal s1 evs) uuid_Nil (zoneID s1)
                     (MobUpdate snap) \<and>
             (\<forall>x f. marshal (Broadcast (mName (State mob) @ '' has respawned'')) = Some f \<and>
                 isRecipient s50 uuid_Nil (mZoneID (State mob)) x \<and>
                 length (buf (Send (heap s50 x))) < 128 \<longrightarrow>
                 f \<in> set (drop (length (buf (Send (heap s49 x)))) (buf (Send (heap s50 x))))) \<and>
             runTicks marshal envs s = Some s50 \<and> tick s50 = tick s + 50 \<and>
             mobs s50 k =
               Some (mob\<lparr>RespawnCounter := 0,
                         State := (State mob)\<lparr>mAlive := True, mHP := mMaxHP (State mob),
                                               mX := SpawnX mob, mY := SpawnY mob\<rparr>\<rparr>)"
    using r49 tl ev tw em dl r50 tk m50 by blast
  show ?thesis
    using rc first third stuck by blast
qed

lemma bren_in_range:
  "\<not> distance (pX (newPlayer bren 3.5 2.5 ''starter-zone'')) (pY (newPlayer bren 3.5 2.5 ''starter-zone''))
       (mX (State (newMobRuntime slime))) (mY (State (newMobRuntime slime))) > playerAttackRange"
proof -
  have "Hypot (3.5 - 3.5) (2.5 - 3.5) \<le> 1.3"
    by (rule Hypot_le) simp_all
  then show ?thesis
    by (simp add: newPlayer_def newMobRuntime_def slime_def distance_def playerAttackRange_def)
qed

theorem mob_respawns_after_50_ticks_witness:
  "gridOk (worldMap duel) \<and> chansOpen duel \<and>
   mobs duel ''mob-slime-1'' = Some (newMobRuntime slime) \<and>
   mAlive (State (newMobRuntime slime)) \<and> length (replicate 50 calm) = 50 \<and>
   (\<exists>s. Attack Some duel 1 ''mob-slime-1'' = Some s \<and>
      mobs s ''mob-slime-1'' =
        Some ((newMobRuntime slime)\<lparr>State := slime\<lparr>mAlive := False, mHP := 0\<rparr>,
                                    RespawnCounter := 50\<rparr>) \<and>
      rangeOrder (mobs s) (mob_order calm) \<and>
      (\<exists>s49 s50. runTicks Some (replicate 49 calm) s = Some s49 \<and>
         runTicks Some (replicate 50 calm) s = Some s50 \<and> tick s50 = tick s + 50 \<and>
         mobs s50 ''mob-slime-1'' = Some (newMobRuntime slime) \<and>
         isRecipient s50 uuid_Nil ''starter-zone'' 1 \<and>
         length (buf (Send (heap s50 1))) < 128 \<and>
         Broadcast ''Green Slime has respawned''
           \<in> set (drop (length (buf (Send (heap s49 1)))) (buf (Send (heap s50 1))))))"
proof -
  let ?k = "''mob-slime-1''"
  let ?dead = "(newMobRuntime slime)\<lparr>State := slime\<lparr>mAlive := False, mHP := 0\<rparr>,
                                    RespawnCounter := 50\<rparr>"
  have g: "gridOk (worldMap duel)"
    by (simp add: worldMap_duel gridOk_arenaMap)
  have p: "players duel (CharacterID (heap duel 1)) = Some (newPlayer bren 3.5 2.5 ''starter-zone'')"
    by (simp add: duel_def session_def)
  have m: "mobs duel ?k = Some (newMobRuntime slime)"
    by (simp add: duel_def)
  have a: "mAlive (State (newMobRuntime slime))"
    by (simp add: newMobRuntime_def slime_def)
  have h: "mHP (State (newMobRuntime slime))
             \<le> basePlayerDamage + (pLevel (newPlayer bren 3.5 2.5 ''starter-zone'') - 1) * 3"
    by (simp add: newMobRuntime_def slime_def basePlayerDamage_def newPlayer_def)
  have oc: "\<not> closed (Send (heap duel 1))"
    by (simp add: duel_def session_def)
  from Attack_kills[OF p m a bren_in_range h chansOpen_duel oc, of Some]
  obtain s where at: "Attack Some duel 1 ?k = Some s"
    and ms: "mobs s ?k = Some ?dead"
    by (auto simp add: mobRespawnTicks_def newMobRuntime_def)
  have dead: "\<not> mAlive (State ?dead)" by simp
  have "dom (mobs s) = dom (mobs duel)"
    using Attack_placesOk[OF at] placesOk_dom by blast
  then have ro: "rangeOrder (mobs s) (mob_order calm)"
    by (simp add: rangeOrder_def calm_def duel_def)
  have l: "length (replicate 50 calm) = 50" by simp
  have r: "\<forall>env \<in> set (replicate 50 calm). rangeOrder (mobs s) (mob_order env)"
    using ro by simp
  have gs: "gridOk (worldMap s)"
    using Attack_placesOk[OF at] g by (simp add: placesOk_def)
  have os: "chansOpen s"
    using Attack_placesOk[OF at] chansOpen_duel by (simp add: chansOpen_def)
  have r0: "isRecipient duel uuid_Nil ''starter-zone'' 1"
    by (simp add: isRecipient_def duel_def session_def uuid_Nil_def newPlayer_def)
  have rs: "isRecipient s uuid_Nil ''starter-zone'' 1"
    using Attack_frames(2)[OF at] r0 by simp
  have "length (buf (Send (heap duel 1))) = 0"
    by (simp add: duel_def session_def)
  then have ls: "length (buf (Send (heap s 1))) \<le> 4"
    using framesAdded_length[OF Attack_frames(1)[OF at], of 1] by simp
  have lone: "\<forall>env \<in> set (replicate 49 calm). mob_order env = [?k]"
    by (simp add: calm_def)
  have c49: "RespawnCounter ?dead > int (length (replicate 49 calm))" by simp
  from runTicks_lone_quiet[OF gs os lone ms dead c49, of Some]
  obtain s49 where r49: "runTicks Some (replicate 49 calm) s = Some s49"
    and g49: "gridOk (worldMap s49)" and o49: "chansOpen s49"
    and m49: "mobs s49 ?k = Some (?dead\<lparr>RespawnCounter := 1\<rparr>)"
    and rc49: "\<And>skip zone x. isRecipient s49 skip zone x = isRecipient s skip zone x"
    and f49: "framesAdded 49 s s49"
    by auto
  have l49: "length (buf (Send (heap s49 1))) \<le> 53"
    using framesAdded_length[OF f49, of 1] ls by simp
  have d1: "\<not> mAlive (State (?dead\<lparr>RespawnCounter := 1\<rparr>))" by simp
  have mo: "mob_order calm = [?k]" by (simp add: calm_def)
  from tickWorld_lone_dead[OF g49 o49 mo m49 d1, of Some]
  obtain s50 where tw: "tickWorld Some calm s49 = Some s50"
    and rc50: "\<And>skip zone x. isRecipient s50 skip zone x = isRecipient s49 skip zone x"
    and f50: "framesAdded 2 s49 s50"
    by auto
  have l50: "length (buf (Send (heap s50 1))) < 128"
    using framesAdded_length[OF f50, of 1] l49 by simp
  have r50: "isRecipient s50 uuid_Nil ''starter-zone'' 1"
    using rc50 rc49 rs by simp
  have tk49: "take 49 (replicate 50 calm) = replicate 49 calm" by simp
  have n49: "replicate 50 calm ! 49 = calm" by simp
  from mob_respawns_after_50_ticks[OF g chansOpen_duel m a at ms dead l r]
  obtain t49 t50 where
    q49: "runTicks Some (take 49 (replicate 50 calm)) s = Some t49"
    and qw: "tickWorld Some (replicate 50 calm ! 49) t49 = Some t50"
    and dl: "\<forall>x f. Some (Broadcast (mName (State ?dead) @ '' has respawned'')) = Some f \<and>
                 isRecipient t50 uuid_Nil (mZoneID (State ?dead)) x \<and>
                 length (buf (Send (heap t50 x))) < 128 \<longrightarrow>
                 f \<in> set (drop (length (buf (Send (heap t49 x)))) (buf (Send (heap t50 x))))"
    and q50: "runTicks Some (replicate 50 calm) s = Some t50" and tk: "tick t50 = tick s + 50"
    and m50: "mobs t50 ?k = Some (?dead\<lparr>RespawnCounter := 0,
                         State := (State ?dead)\<lparr>mAlive := True, mHP := mMaxHP (State ?dead),
                                               mX := SpawnX ?dead, mY := SpawnY ?dead\<rparr>\<rparr>)"
    by blast
  have e49: "t49 = s49" using q49 r49 by (simp only: tk49) simp
  have e50: "t50 = s50" using qw tw e49 by (simp only: n49) simp
  have alive: "?dead\<lparr>RespawnCounter := 0,
                         State := (State ?dead)\<lparr>mAlive := True, mHP := mMaxHP (State ?dead),
                                               mX := SpawnX ?dead, mY := SpawnY ?dead\<rparr>\<rparr>
                 = newMobRuntime slime"
    by (simp add: newMobRuntime_def slime_def)
  have notice: "Broadcast ''Green Slime has respawned''
           \<in> set (drop (length (buf (Send (heap s49 1)))) (buf (Send (heap s50 1))))"
    using dl[rule_format, of "Broadcast ''Green Slime has respawned''" 1] r50 l50
    by (simp add: e49 e50 slime_def)
  have "\<exists>s49 s50. runTicks Some (replicate 49 calm) s = Some s49 \<and>
         runTicks Some (replicate 50 calm) s = Some s50 \<and> tick s50 = tick s + 50 \<and>
         mobs s50 ''mob-slime-1'' = Some (newMobRuntime slime) \<and>
         isRecipient s50 uuid_Nil ''starter-zone'' 1 \<and>
         length (buf (Send (heap s50 1))) < 128 \<and>
         Broadcast ''Green Slime has respawned''
           \<in> set (drop (length (buf (Send (heap s49 1)))) (buf (Send (heap s50 1))))"
    using r49 q50[unfolded e50] tk[unfolded e50] m50[unfolded alive e50] r50 l50 notice
    by blast
  then show ?thesis
    using g chansOpen_duel m a l at ms ro by blast
qed

subsection \<open>A joined player next to a wall\<close>

lemma arena_fields:
  "worldMap arena = arenaMap" "mobs arena = [''mob-slime-1'' \<mapsto> newMobRuntime slime]"
  "players arena = Map.empty" "clients arena = {}" "zoneID arena = ''starter-zone''"
  by (simp_all add: arena_def NewService_def loadWorldMap_def arenaJSON_def arenaMap_def
      mobOfJSON_def slime_def)

lemma reachable_arena: "reachable Some arena"
  unfolding arena_def by (rule reachable.init)

lemma reachable_lobby: "reachable Some lobby"
  unfolding lobby_def
  by (rule reachable.register[OF reachable_arena]) (simp add: arena_fields)

lemma lobby_fields:
  "worldMap lobby = arenaMap" "mobs lobby = [''mob-slime-1'' \<mapsto> newMobRuntime slime]"
  "players lobby = Map.empty" "clients lobby = {1}" "zoneID lobby = ''starter-zone''"
  by (simp_all add: lobby_def RegisterClient_def arena_fields)

lemma walkable_dana: "walkable arenaMap 1.125 1.5"
  by (simp add: walkable_def arenaMap_def)

lemma dana_cramped: "\<not> walkable_radius arenaMap 1.125 1.5 0.2"
  by (simp add: walkable_radius_def walkable_def arenaMap_def)

lemma Join_cornered:
  "Join Some [] [''mob-slime-1''] lobby 1 dana = Some cornered \<and>
   players cornered = [10 \<mapsto> newPlayer dana 1.125 1.5 ''starter-zone''] \<and>
   CharacterID (heap cornered 1) = 10 \<and> worldMap cornered = arenaMap \<and>
   mobs cornered = [''mob-slime-1'' \<mapsto> newMobRuntime slime] \<and> clients cornered = {1}"
proof -
  have g: "gridOk (worldMap lobby)"
    by (simp add: lobby_fields gridOk_arenaMap)
  have o: "chansOpen lobby"
    using reachable_inv[OF reachable_lobby] by simp
  have oc: "\<not> closed (Send (heap lobby 1))"
    using o by (simp add: chansOpen_def lobby_fields)
  have d: "chPosX dana = 1.125" "chPosY dana = 1.5" "chID dana = 10"
    by (simp_all add: dana_def)
  have jp: "joinPosition (worldMap lobby) (chPosX dana) (chPosY dana) = Some (1.125, 1.5)"
    using walkable_dana by (simp add: joinPosition_gridOk[OF gridOk_arenaMap] lobby_fields d)
  from Join_total[OF jp o oc] obtain s' where
    j: "Join Some [] [''mob-slime-1''] lobby 1 dana = Some s'" by blast
  then have c: "cornered = s'" by (simp add: cornered_def)
  note f = onlyFrames_fields[OF Join_Some[OF j jp]]
  have "players s' = [10 \<mapsto> newPlayer dana 1.125 1.5 ''starter-zone'']"
    using f(1) by (simp add: lobby_fields d)
  moreover have "CharacterID (heap s' 1) = 10"
    using f(10)[of 1] by (simp add: d)
  moreover have "worldMap s' = arenaMap" "mobs s' = [''mob-slime-1'' \<mapsto> newMobRuntime slime]"
    "clients s' = {1}"
    using f(2,3,4) by (simp_all add: lobby_fields)
  ultimately show ?thesis using j c by simp
qed

lemma reachable_cornered: "reachable Some cornered"
  using reachable.join[OF reachable_lobby _ conjunct1[OF Join_cornered]]
  by (simp add: lobby_fields)

lemma Move_pushed:
  "Move Some cornered 1 (- 1) 0 = Some pushed \<and>
   players pushed = [10 \<mapsto> newPlayer dana 1.125 1.5 ''starter-zone''] \<and>
   worldMap pushed = arenaMap"
proof -
  have c: "players cornered = [10 \<mapsto> newPlayer dana 1.125 1.5 ''starter-zone'']"
    "CharacterID (heap cornered 1) = 10" "worldMap cornered = arenaMap"
    using Join_cornered by simp_all
  have g: "gridOk (worldMap cornered)"
    by (simp add: c gridOk_arenaMap)
  have o: "chansOpen cornered"
    using reachable_inv[OF reachable_cornered] by simp
  from Move_total[OF g o] obtain s' where
    mv: "Move Some cornered 1 (- 1) 0 = Some s'" by blast
  then have p: "pushed = s'" by (simp add: pushed_def)
  have "Hypot (- 1) 0 = 1"
    by (rule Hypot_eq) simp_all
  then have st: "moveStep (- 1) 0 = (- 0.35, 0)"
    using MaxFloat64_gt by (simp add: moveStep_def math_Hypot_def playerMoveSpeed_def)
  have bx: "\<not> walkable_radius arenaMap (1.125 + - 0.35) 1.5 0.2"
    by (simp add: walkable_radius_def walkable_def arenaMap_def)
  have by': "\<not> walkable_radius arenaMap 1.125 (1.5 + 0) 0.2"
    using dana_cramped by simp
  have sl: "slide arenaMap (newPlayer dana 1.125 1.5 ''starter-zone'') (- 0.35) 0 =
            Some (newPlayer dana 1.125 1.5 ''starter-zone'')"
    using bx by' by (simp add: slide_gridOk[OF gridOk_arenaMap] newPlayer_def)
  have big: "\<not> (\<bar>- 1 :: real\<bar> < 0.000001 \<and> \<bar>0 :: real\<bar> < 0.000001)"
    by simp
  from mv big st sl c obtain s2 where
    bc: "broadcastZone Some (cornered\<lparr>players := (players cornered)(10 \<mapsto>
            newPlayer dana 1.125 1.5 ''starter-zone'')\<rparr>) uuid_Nil
            (pZoneID (newPlayer dana 1.125 1.5 ''starter-zone''))
            (PlayerMoved 10 (pX (newPlayer dana 1.125 1.5 ''starter-zone''))
               (pY (newPlayer dana 1.125 1.5 ''starter-zone''))) = Some s2"
    and s': "s' = (if has_updater s2
                   then s2\<lparr>persisted := persisted s2 @
                          [(AccountID (heap s2 1), 10, pX (newPlayer dana 1.125 1.5 ''starter-zone''),
                            pY (newPlayer dana 1.125 1.5 ''starter-zone''),
                            pZoneID (newPlayer dana 1.125 1.5 ''starter-zone''))]\<rparr>
                   else s2)"
    by (auto simp add: Move_def Let_def split: option.splits)
  note f = onlyFrames_fields[OF broadcastZone_onlyFrames[OF bc]]
  have "players s' = [10 \<mapsto> newPlayer dana 1.125 1.5 ''starter-zone'']"
    using f(1) s' c by (cases "has_updater s2") simp_all
  moreover have "worldMap s' = arenaMap"
    using f(3) s' c by (cases "has_updater s2") simp_all
  ultimately show ?thesis using mv p by simp
qed

lemma reachable_pushed: "reachable Some pushed"
  using reachable.move[OF reachable_cornered _ conjunct1[OF Move_pushed]] Join_cornered
  by simp

text \<open>
  Dana's saved position \<open>(1.125, 1.5)\<close> is walkable, so \<^verbatim>\<open>Join\<close> keeps it, but its
  probe to the left, \<open>(0.925, 1.5)\<close>, is a wall tile. A move to the left commits neither
  axis. So in a state reached from the initial world by a registration, a join and a
  move, the player's position is not walkable with radius 0.2.
\<close>

theorem joined_player_not_walkable_after_move:
  "reachable Some pushed \<and> Move Some cornered 1 (- 1) 0 = Some pushed \<and>
   players pushed 10 = Some (newPlayer dana 1.125 1.5 ''starter-zone'') \<and>
   \<not> walkable_radius (worldMap pushed) 1.125 1.5 0.2 \<and> \<not> walkInv pushed"
proof -
  have a: "players pushed 10 = Some (newPlayer dana 1.125 1.5 ''starter-zone'')"
    using Move_pushed by simp
  have b: "\<not> walkable_radius (worldMap pushed) 1.125 1.5 0.2"
    using Move_pushed dana_cramped by simp
  have xy: "pX (newPlayer dana 1.125 1.5 ''starter-zone'') = 1.125"
    "pY (newPlayer dana 1.125 1.5 ''starter-zone'') = 1.5"
    by (simp_all add: newPlayer_def)
  have "\<not> walkInv pushed"
  proof
    assume "walkInv pushed"
    then have "walkable_radius (worldMap pushed) (pX (newPlayer dana 1.125 1.5 ''starter-zone''))
                 (pY (newPlayer dana 1.125 1.5 ''starter-zone'')) 0.2"
      using a unfolding walkInv_def by blast
    then show False using b by (simp only: xy)
  qed
  then show ?thesis
    using reachable_pushed Move_pushed a b by simp
qed

subsection \<open>Patrol and walkability\<close>

text \<open>
  C3. In every state reachable from the initial world, so in particular at the end of
  every tick, every mob is at Euclidean distance at most its patrol radius from its spawn
  point.
\<close>

theorem patrol_containment:
  assumes "reachable marshal s" and "mobs s k = Some mob"
  shows "distance (SpawnX mob) (SpawnY mob) (mX (State mob)) (mY (State mob))
           \<le> mPatrolRadius (State mob)"
  using reachable_inv[OF assms(1)] assms(2) by (simp add: patrolInv_def)

theorem patrol_containment_witness:
  "reachable Some arena \<and> mobs arena ''mob-slime-1'' = Some (newMobRuntime slime) \<and>
   distance (SpawnX (newMobRuntime slime)) (SpawnY (newMobRuntime slime))
     (mX (State (newMobRuntime slime))) (mY (State (newMobRuntime slime)))
       \<le> mPatrolRadius (State (newMobRuntime slime)) \<and>
   tickEnvOk arena (calm\<lparr>player_order := (\<lambda>k. [])\<rparr>) \<and>
   (\<exists>s' mob. tickWorld Some (calm\<lparr>player_order := (\<lambda>k. [])\<rparr>) arena = Some s' \<and>
      reachable Some s' \<and> mobs s' ''mob-slime-1'' = Some mob \<and>
      distance (SpawnX mob) (SpawnY mob) (mX (State mob)) (mY (State mob))
        \<le> mPatrolRadius (State mob))"
proof -
  let ?env = "calm\<lparr>player_order := (\<lambda>k. [])\<rparr>"
  have m: "mobs arena ''mob-slime-1'' = Some (newMobRuntime slime)"
    by (simp add: arena_fields)
  have e: "tickEnvOk arena ?env"
    by (simp add: tickEnvOk_def rangeOrder_def calm_def arena_fields mobWanderMaxTicks_def)
  have g: "gridOk (worldMap arena)" and o: "chansOpen arena"
    using reachable_inv[OF reachable_arena] by simp_all
  from tickWorld_total[OF g o] obtain s' where
    t: "tickWorld Some ?env arena = Some s'" by blast
  have r: "reachable Some s'"
    using reachable.tick[OF reachable_arena e t] .
  from tickWorld_Some[OF t] obtain s1 where "tickRel arena s1" "onlyFrames s1 s'"
    by blast
  then have "placesOk arena s'"
    using placesOk_trans tickRel_placesOk onlyFrames_placesOk by blast
  from placesOk_dom[OF this] m obtain mob where
    m': "mobs s' ''mob-slime-1'' = Some mob"
    by (auto simp add: dom_def)
  show ?thesis
    using reachable_arena m e t r m'
      patrol_containment[OF reachable_arena m] patrol_containment[OF r m']
    by blast
qed

lemma Move_walkInv:
  assumes g: "gridOk (worldMap s)" and w: "walkInv s" and sp: "spawnsOk s"
    and mv: "Move marshal s c dx dy = Some s'"
  shows "walkInv s' \<and> spawnsOk s'"
proof -
  note f = Move_fields[OF mv]
  have "walkable_radius (worldMap s) (pX p') (pY p') 0.2" if "players s' t = Some p'" for t p'
  proof -
    from Move_players[OF mv g that] obtain p where "players s t = Some p"
      "(pX p' = pX p \<and> pY p' = pY p) \<or> walkable_radius (worldMap s) (pX p') (pY p') 0.2"
      by blast
    with w show ?thesis by (auto simp add: walkInv_def)
  qed
  then show ?thesis
    using w sp f(1,2) by (simp add: walkInv_def spawnsOk_def)
qed

text \<open>
  C1, as the code has it. On a loaded grid with the queues open, let every player and
  every mob stand on a point that is walkable with radius 0.2, and let the spawn point of
  the map and of every mob be such a point as well. Then any move command and any tick
  returns, and in the state after it all of this holds again: a move and a chase or
  wander step commit only destinations that are walkable with radius 0.2, a respawn goes
  to the mob's spawn point and the death teleport to the spawn point of the map. (What
  \<^verbatim>\<open>Join\<close> does to a position is the subject of C2.)
\<close>

theorem walkability_preserved:
  assumes "gridOk (worldMap s)" and "chansOpen s" and "walkInv s" and "spawnsOk s"
  shows "(\<exists>s'. Move marshal s c dx dy = Some s' \<and>
            gridOk (worldMap s') \<and> chansOpen s' \<and> walkInv s' \<and> spawnsOk s') \<and>
         (\<exists>s'. tickWorld marshal env s = Some s' \<and>
            gridOk (worldMap s') \<and> chansOpen s' \<and> walkInv s' \<and> spawnsOk s')"
proof
  from Move_total[OF assms(1,2)] obtain s' where mv: "Move marshal s c dx dy = Some s'"
    by blast
  note f = Move_fields[OF mv]
  have "gridOk (worldMap s')" using f(2) assms(1) by simp
  moreover have "chansOpen s'" using f(3,4) assms(2) by (simp add: chansOpen_def)
  ultimately show "\<exists>s'. Move marshal s c dx dy = Some s' \<and>
            gridOk (worldMap s') \<and> chansOpen s' \<and> walkInv s' \<and> spawnsOk s'"
    using mv Move_walkInv[OF assms(1,3,4) mv] by blast
next
  from tickWorld_total[OF assms(1,2)] obtain s' where t: "tickWorld marshal env s = Some s'"
    by blast
  from tickWorld_Some[OF t] obtain s1 where r: "tickRel s s1" and f: "onlyFrames s1 s'"
    by blast
  have p: "placesOk s s'"
    using placesOk_trans[OF tickRel_placesOk[OF r] onlyFrames_placesOk[OF f]] .
  have "gridOk (worldMap s')" using p assms(1) by (simp add: placesOk_def)
  moreover have "chansOpen s'"
    using tickRel_fields[OF r] onlyFrames_fields[OF f] assms(2) by (auto simp add: chansOpen_def)
  ultimately show "\<exists>s'. tickWorld marshal env s = Some s' \<and>
            gridOk (worldMap s') \<and> chansOpen s' \<and> walkInv s' \<and> spawnsOk s'"
    using t walkInv_placesOk[OF assms(1,3,4) p] by blast
qed

lemma walkInv_duel: "walkInv duel \<and> spawnsOk duel"
  by (auto simp add: walkInv_def spawnsOk_def duel_def newPlayer_def newMobRuntime_def slime_def
      walkable_radius_def walkable_def arenaMap_def split: if_splits)

theorem walkability_preserved_witness:
  "gridOk (worldMap duel) \<and> chansOpen duel \<and> walkInv duel \<and> spawnsOk duel \<and>
   (\<exists>s'. Move Some duel 1 12 5 = Some s' \<and> walkInv s' \<and> spawnsOk s') \<and>
   (\<exists>s'. tickWorld Some calm duel = Some s' \<and> walkInv s' \<and> spawnsOk s')"
proof -
  have g: "gridOk (worldMap duel)"
    by (simp add: worldMap_duel gridOk_arenaMap)
  from walkability_preserved[OF g chansOpen_duel conjunct1[OF walkInv_duel]
      conjunct2[OF walkInv_duel], of Some 1 12 5 calm]
  show ?thesis
    using g chansOpen_duel walkInv_duel by blast
qed

subsection \<open>A runtime left behind by a second join\<close>

text \<open>
  A runtime left behind by a second join stays for good: when a session that plays
  character \<open>a\<close> joins as another character, the runtime of \<open>a\<close> is still in the player
  table after the join, and still there after the session is unregistered, because
  \<^verbatim>\<open>UnregisterClient\<close> deletes the entry of the session's current character id only.
\<close>

lemma Join_then_Unregister_keeps_runtime:
  assumes j: "Join marshal pk mk s c char = Some s1"
    and a: "players s a = Some pr" and ne: "a \<noteq> chID char"
    and u: "UnregisterClient marshal s1 c = Some s2"
  shows "players s1 a = Some pr" "players s2 a = Some pr" "players s2 (chID char) = None"
proof -
  from Join_Some_position[OF j] obtain x y
    where xy: "joinPosition (worldMap s) (chPosX char) (chPosY char) = Some (x, y)" by blast
  note fr = Join_Some[OF j xy]
  have p1: "players s1 = (players s)(chID char \<mapsto> newPlayer char x y (zoneID s))"
    using onlyFrames_fields(1)[OF fr] by simp
  have c1: "CharacterID (heap s1 c) = chID char"
    using onlyFrames_fields(10)[OF fr, of c] by simp
  have p2: "players s2 = (players s1)(chID char := None)"
    using UnregisterClient_fields(5)[OF u] c1 by simp
  show "players s1 a = Some pr" using p1 a ne by simp
  show "players s2 a = Some pr" using p2 p1 a ne by simp
  show "players s2 (chID char) = None" using p2 by simp
qed

end
